theory Spec2Isabelle
  imports Main
begin

section \<open>The P5 proxy generator: rendition resolution and path mapping\<close>

text \<open>
  A shallow embedding of \<^verbatim>\<open>p5_proxy_generator.py\<close>. Python strings are \<open>string\<close>,
  the module-level configuration constants are the fields of a record, and the calls
  into the operating system are functions on an explicit world.

  The path functions are those of \<^verbatim>\<open>posixpath\<close>: \<^verbatim>\<open>os.sep\<close> is the slash, and a
  backslash is an ordinary character of a file name.
\<close>

subsection \<open>Strings\<close>

definition slash :: char where
  "slash = CHR ''/''"

definition backslash :: char where
  "backslash = CHR 0x5C"

text \<open>\<^verbatim>\<open>s.startswith(t)\<close> and \<^verbatim>\<open>s.endswith(t)\<close>.\<close>

definition startswith :: "string \<Rightarrow> string \<Rightarrow> bool" where
  "startswith s t = (take (length t) s = t)"

definition endswith :: "string \<Rightarrow> string \<Rightarrow> bool" where
  "endswith s t = (length t \<le> length s \<and> drop (length s - length t) s = t)"

text \<open>\<^verbatim>\<open>s.rfind(c) + 1\<close>: the length of the part of \<open>s\<close> up to and including the last
  \<open>c\<close>, and 0 when \<open>c\<close> does not occur (\<^verbatim>\<open>rfind\<close> is then -1).\<close>

definition rfind1 :: "char \<Rightarrow> string \<Rightarrow> nat" where
  "rfind1 c s = length (dropWhile (\<lambda>x. x \<noteq> c) (rev s))"

text \<open>\<^verbatim>\<open>s.rstrip(c)\<close> for a single character.\<close>

definition rstrip :: "char \<Rightarrow> string \<Rightarrow> string" where
  "rstrip c s = rev (dropWhile (\<lambda>x. x = c) (rev s))"

text \<open>\<^verbatim>\<open>s.split(c)\<close>: never empty, \<^verbatim>\<open>''.split('/')\<close> is \<^verbatim>\<open>['']\<close>.\<close>

fun split_on :: "char \<Rightarrow> string \<Rightarrow> string list" where
  "split_on c [] = [[]]"
| "split_on c (x # xs) =
     (if x = c then [] # split_on c xs
      else (case split_on c xs of
              [] \<Rightarrow> [[x]]
            | y # ys \<Rightarrow> (x # y) # ys))"

text \<open>\<^verbatim>\<open>c.join(parts)\<close>.\<close>

fun join_with :: "char \<Rightarrow> string list \<Rightarrow> string" where
  "join_with c [] = []"
| "join_with c [p] = p"
| "join_with c (p # q # ps) = p @ c # join_with c (q # ps)"

subsection \<open>\<^verbatim>\<open>posixpath\<close> and \<^verbatim>\<open>pathlib\<close>\<close>

text \<open>
  \<^verbatim>\<open>os.path.dirname\<close>:
  \<^verbatim>\<open>
  i = p.rfind('/') + 1
  head = p[:i]
  if head and head != '/'*len(head):
      head = head.rstrip('/')
  return head
  \<close>
\<close>

definition dirname :: "string \<Rightarrow> string" where
  "dirname p =
     (let i = rfind1 slash p;
          head = take i p
      in if head \<noteq> [] \<and> head \<noteq> replicate (length head) slash
         then rstrip slash head else head)"

text \<open>
  \<^verbatim>\<open>os.path.join(a, *p)\<close>: a component that starts with a slash discards what came before
  it.
  \<^verbatim>\<open>
  path = a
  for b in p:
      if b.startswith('/'):
          path = b
      elif not path or path.endswith('/'):
          path += b
      else:
          path += '/' + b
  return path
  \<close>
\<close>

definition join_step :: "string \<Rightarrow> string \<Rightarrow> string" where
  "join_step path b =
     (if startswith b [slash] then b
      else if path = [] \<or> endswith path [slash] then path @ b
      else path @ slash # b)"

definition path_join :: "string \<Rightarrow> string list \<Rightarrow> string" where
  "path_join a p = foldl join_step a p"

text \<open>
  \<^verbatim>\<open>os.path.normpath\<close>:
  \<^verbatim>\<open>
  if not path: return '.'
  initial_slashes = path.startswith('/')
  if initial_slashes and path.startswith('//') and not path.startswith('///'):
      initial_slashes = 2
  comps = path.split('/')
  new_comps = []
  for comp in comps:
      if comp in ('', '.'): continue
      if (comp != '..' or (not initial_slashes and not new_comps) or
           (new_comps and new_comps[-1] == '..')):
          new_comps.append(comp)
      elif new_comps:
          new_comps.pop()
  comps = new_comps
  path = '/'.join(comps)
  if initial_slashes: path = '/'*initial_slashes + path
  return path or '.'
  \<close>
\<close>

definition norm_step :: "nat \<Rightarrow> string list \<Rightarrow> string \<Rightarrow> string list" where
  "norm_step initial_slashes new_comps cmp =
     (if cmp = [] \<or> cmp = ''.'' then new_comps
      else if cmp \<noteq> ''..'' \<or> (initial_slashes = 0 \<and> new_comps = [])
              \<or> (new_comps \<noteq> [] \<and> last new_comps = ''..'')
           then new_comps @ [cmp]
      else if new_comps \<noteq> [] then butlast new_comps
      else new_comps)"

definition normpath :: "string \<Rightarrow> string" where
  "normpath path =
     (if path = [] then ''.''
      else
        let initial_slashes =
              (if startswith path [slash]
               then (if startswith path [slash, slash] \<and> \<not> startswith path [slash, slash, slash]
                     then 2 else 1)
               else 0);
            comps = foldl (norm_step initial_slashes) [] (split_on slash path);
            path' = replicate initial_slashes slash @ join_with slash comps
        in if path' = [] then ''.'' else path')"

text \<open>
  \<^verbatim>\<open>Path(p).name\<close>: \<^verbatim>\<open>pathlib\<close> drops the empty and the \<^verbatim>\<open>'.'\<close> components when it parses
  a path, and the name is the last component left, or \<^verbatim>\<open>''\<close> when only the root is.
\<close>

definition path_name :: "string \<Rightarrow> string" where
  "path_name p =
     (case filter (\<lambda>x. x \<noteq> [] \<and> x \<noteq> ''.'') (split_on slash p) of
        [] \<Rightarrow> []
      | x # xs \<Rightarrow> last (x # xs))"

text \<open>
  \<^verbatim>\<open>Path(p).stem\<close>:
  \<^verbatim>\<open>
  name = self.name
  i = name.rfind('.')
  if 0 < i < len(name) - 1:
      return name[:i]
  else:
      return name
  \<close>
\<close>

definition path_stem :: "string \<Rightarrow> string" where
  "path_stem p =
     (let name = path_name p;
          i1 = rfind1 (CHR ''.'') name
      in if 1 < i1 \<and> i1 < length name then take (i1 - 1) name else name)"

subsection \<open>Configuration\<close>

text \<open>
  The constants of the \<^verbatim>\<open>CONFIGURATION\<close> block, under their own names. The two
  \<^verbatim>\<open>ENABLE_\<close> flags are booleans; the quality-source selectors are free strings, as in
  the source, which compares them with \<^verbatim>\<open>"preview"\<close> and \<^verbatim>\<open>"workflow"\<close>.
\<close>

record config =
  ENABLE_P5_PREVIEW :: bool
  P5_PREVIEW_SOURCE :: string
  ENABLE_WORKFLOW_STORE :: bool
  WORKFLOW_STORE_SOURCE :: string
  FFMPEG_PATH :: string
  WORKFLOW_PROJECT_FOLDER :: string
  WORKFLOW_NEW_BASE :: string
  WORKFLOW_REMOVE_LEVELS :: int
  WORKFLOW_REPLACE_WITH :: string
  PREVIEW_SCALE :: string
  PREVIEW_ABITRATE :: string
  PREVIEW_CODEC :: string
  PREVIEW_CODEC_PROFILE :: string
  PREVIEW_CONTAINER :: string
  PREVIEW_VBITRATE :: string
  PREVIEW_CRF :: string
  PREVIEW_PRESET :: string
  PREVIEW_TUNE :: string
  WORKFLOW_SCALE :: string
  WORKFLOW_ABITRATE :: string
  WORKFLOW_CODEC :: string
  WORKFLOW_CODEC_PROFILE :: string
  WORKFLOW_CONTAINER :: string
  WORKFLOW_VBITRATE :: string
  WORKFLOW_CRF :: string
  WORKFLOW_PRESET :: string
  WORKFLOW_TUNE :: string

text \<open>The values the repository ships.\<close>

definition default_config :: config where
  "default_config =
     \<lparr>ENABLE_P5_PREVIEW = True, P5_PREVIEW_SOURCE = ''preview'',
      ENABLE_WORKFLOW_STORE = True, WORKFLOW_STORE_SOURCE = ''workflow'',
      FFMPEG_PATH = [],
      WORKFLOW_PROJECT_FOLDER = [], WORKFLOW_NEW_BASE = [],
      WORKFLOW_REMOVE_LEVELS = 1, WORKFLOW_REPLACE_WITH = ''proxies'',
      PREVIEW_SCALE = ''320'', PREVIEW_ABITRATE = ''64k'', PREVIEW_CODEC = ''h264'',
      PREVIEW_CODEC_PROFILE = [], PREVIEW_CONTAINER = [], PREVIEW_VBITRATE = ''256k'',
      PREVIEW_CRF = ''28'', PREVIEW_PRESET = ''veryfast'', PREVIEW_TUNE = ''fastdecode'',
      WORKFLOW_SCALE = ''1920'', WORKFLOW_ABITRATE = ''128k'', WORKFLOW_CODEC = ''h264'',
      WORKFLOW_CODEC_PROFILE = [], WORKFLOW_CONTAINER = [], WORKFLOW_VBITRATE = ''5000k'',
      WORKFLOW_CRF = ''18'', WORKFLOW_PRESET = ''medium'', WORKFLOW_TUNE = []\<rparr>"

subsection \<open>\<^verbatim>\<open>get_container\<close>\<close>

definition get_container :: "string \<Rightarrow> string \<Rightarrow> string" where
  "get_container codec custom =
     (if custom \<noteq> [] then custom
      else (case map_of [(''h264'', ''mp4''), (''prores'', ''mov''), (''dnxhd'', ''mxf'')] codec of
              Some c \<Rightarrow> c
            | None \<Rightarrow> ''mp4''))"

subsection \<open>\<^verbatim>\<open>build_workflow_path\<close>\<close>

text \<open>
  The search of the pattern \<^verbatim>\<open>[/\\]MARKER[/\\]\<close> (the marker escaped, so literal) in a
  string: \<^verbatim>\<open>pattern.search\<close> tries the start positions from the left, and the value
  here is \<^verbatim>\<open>src_dir[match.end():]\<close> for the first match, \<open>None\<close> when there is none.
\<close>

definition is_sep :: "char \<Rightarrow> bool" where
  "is_sep c = (c = slash \<or> c = backslash)"

definition match_here :: "string \<Rightarrow> string \<Rightarrow> bool" where
  "match_here marker s =
     (case s of
        [] \<Rightarrow> False
      | c # cs \<Rightarrow> is_sep c \<and> startswith cs marker \<and>
          (case drop (length marker) cs of [] \<Rightarrow> False | d # ds \<Rightarrow> is_sep d))"

fun marker_search :: "string \<Rightarrow> string \<Rightarrow> string option" where
  "marker_search marker [] = None"
| "marker_search marker (c # cs) =
     (if match_here marker (c # cs) then Some (drop (Suc (length marker)) cs)
      else marker_search marker cs)"

text \<open>Step 1 (lines 205 to 219): replace the base path if configured. The warning of
  the last branch goes to the log only.\<close>

definition replace_base :: "config \<Rightarrow> string \<Rightarrow> string" where
  "replace_base cfg src_dir =
     (if WORKFLOW_PROJECT_FOLDER cfg \<noteq> [] \<and> WORKFLOW_NEW_BASE cfg \<noteq> [] then
        (case marker_search (WORKFLOW_PROJECT_FOLDER cfg) src_dir of
           Some after_marker \<Rightarrow>
             path_join (WORKFLOW_NEW_BASE cfg) [WORKFLOW_PROJECT_FOLDER cfg, after_marker]
         | None \<Rightarrow>
             if endswith src_dir (slash # WORKFLOW_PROJECT_FOLDER cfg)
             then path_join (WORKFLOW_NEW_BASE cfg) [WORKFLOW_PROJECT_FOLDER cfg]
             else src_dir)
      else src_dir)"

text \<open>Step 2 (lines 221 to 224): \<^verbatim>\<open>range(n)\<close> is empty for a negative \<open>n\<close>.\<close>

definition remove_levels :: "int \<Rightarrow> string \<Rightarrow> string" where
  "remove_levels n target_dir = (dirname ^^ nat n) target_dir"

text \<open>Steps 1 to 3 (lines 201 to 228): the value of \<^verbatim>\<open>target_dir\<close> before the naming
  policy.\<close>

definition workflow_target_dir :: "config \<Rightarrow> string \<Rightarrow> string" where
  "workflow_target_dir cfg src_file =
     (let src_dir = replace_base cfg (dirname src_file);
          target_dir = remove_levels (WORKFLOW_REMOVE_LEVELS cfg) src_dir
      in if WORKFLOW_REPLACE_WITH cfg \<noteq> []
         then path_join target_dir [WORKFLOW_REPLACE_WITH cfg]
         else target_dir)"

definition build_workflow_path :: "config \<Rightarrow> string \<Rightarrow> string \<Rightarrow> string" where
  "build_workflow_path cfg src_file container =
     (let src_basename = path_stem src_file;
          original_dir = dirname src_file;
          target_dir = workflow_target_dir cfg src_file;
          output_basename =
            (if normpath target_dir = normpath original_dir
             then src_basename @ ''_proxy'' else src_basename)
      in path_join target_dir [output_basename @ ''.'' @ container])"

text \<open>\<^verbatim>\<open>os.path.basename\<close>, \<^verbatim>\<open>p[p.rfind('/') + 1:]\<close>: the file name of a path.\<close>

definition path_basename :: "string \<Rightarrow> string" where
  "path_basename p = drop (rfind1 slash p) p"

subsection \<open>The world of a run\<close>

text \<open>
  What the script sees of the operating system is the set of paths that are regular
  files; what it does to it is a list of calls, in the order made and whether or not
  they succeed. The external programs are a parameter: \<open>subprocess_run\<close> takes the
  argument list and the files before the call and gives the completed process, or
  \<open>None\<close> when \<^verbatim>\<open>subprocess.run\<close> raises, with the files after it. The platform module
  supplies \<open>AW_TEMP\<close> and \<open>AW_BIN\<close>.

  Two things are left out. \<^verbatim>\<open>aw.log\<close> appends a line to a log file and swallows every
  failure: the log is not part of the world. And the operating system refuses nothing
  it could grant: creating a directory fails for the empty path only, copying for a
  missing source or onto itself, and removing a file that is there succeeds.
\<close>

record proc_result =
  returncode :: int
  stdout :: string
  stderr :: string

record env =
  AW_TEMP :: string
  AW_BIN :: string
  getpid :: nat
  subprocess_run :: "string list \<Rightarrow> string set \<Rightarrow> proc_result option \<times> string set"

datatype call_site = Probe | Transcode | Placeholder

datatype event =
    Spawn call_site "string list" "int option"
  | Makedirs string
  | Copy string string
  | Remove string
  | Print string

record world =
  files :: "string set"
  trace :: "event list"

datatype exn = FileNotFoundError string | SameFileError string | OSError

datatype outcome = Exit0 | Exit1 string | Uncaught exn

definition emit :: "event \<Rightarrow> world \<Rightarrow> world" where
  "emit e w = w\<lparr>trace := trace w @ [e]\<rparr>"

text \<open>\<^verbatim>\<open>os.path.isfile\<close>: the empty path names no file.\<close>

definition isfile :: "world \<Rightarrow> string \<Rightarrow> bool" where
  "isfile w p = (p \<noteq> [] \<and> p \<in> files w)"

text \<open>\<^verbatim>\<open>subprocess.run(cmd, ...)\<close> from one of the three places that call it.\<close>

definition run :: "env \<Rightarrow> call_site \<Rightarrow> string list \<Rightarrow> world \<Rightarrow> proc_result option \<times> world" where
  "run e site cmd w =
     (case subprocess_run e cmd (files w) of
        (r, fs) \<Rightarrow> (r, emit (Spawn site cmd (map_option returncode r)) (w\<lparr>files := fs\<rparr>)))"

text \<open>\<^verbatim>\<open>os.makedirs(d, exist_ok=True)\<close>.\<close>

definition makedirs :: "string \<Rightarrow> world \<Rightarrow> exn option \<times> world" where
  "makedirs d w =
     (if d = [] then (Some (FileNotFoundError d), emit (Makedirs d) w)
      else (None, emit (Makedirs d) w))"

text \<open>\<^verbatim>\<open>shutil.copy2(src, dst)\<close>.\<close>

definition copy2 :: "string \<Rightarrow> string \<Rightarrow> world \<Rightarrow> exn option \<times> world" where
  "copy2 src dst w =
     (let w' = emit (Copy src dst) w
      in if \<not> isfile w src then (Some (FileNotFoundError src), w')
         else if src = dst then (Some (SameFileError src), w')
         else (None, w'\<lparr>files := insert dst (files w')\<rparr>))"

text \<open>\<^verbatim>\<open>os.remove(p)\<close>, called on existing files only.\<close>

definition remove_file :: "string \<Rightarrow> world \<Rightarrow> world" where
  "remove_file p w = (emit (Remove p) w)\<lparr>files := files w - {p}\<rparr>"

text \<open>\<^verbatim>\<open>sub in s\<close> for strings, and \<^verbatim>\<open>str(n)\<close> for a process id.\<close>

fun contains :: "string \<Rightarrow> string \<Rightarrow> bool" where
  "contains [] sub = (sub = [])"
| "contains (c # cs) sub = (startswith (c # cs) sub \<or> contains cs sub)"

definition digit :: "nat \<Rightarrow> char" where
  "digit d = char_of (48 + d)"

fun str_nat :: "nat \<Rightarrow> string" where
  "str_nat n = (if n < 10 then [digit n] else str_nat (n div 10) @ [digit (n mod 10)])"

declare str_nat.simps [simp del]

subsection \<open>\<^verbatim>\<open>init_ffmpeg\<close>\<close>

text \<open>The two globals it sets. \<^verbatim>\<open>sys.platform\<close> is not \<^verbatim>\<open>'win32'\<close>, so the executable is
  \<^verbatim>\<open>ffmpeg\<close>. The bare \<^verbatim>\<open>except\<close> turns a failed probe into the built-in encoder.\<close>

record globals =
  FFMPEG :: string
  USE_LIBX264 :: bool

definition init_ffmpeg :: "env \<Rightarrow> config \<Rightarrow> world \<Rightarrow> globals \<times> world" where
  "init_ffmpeg e cfg w =
     (let builtin = path_join (AW_BIN e) [''ffmpeg'']
      in if FFMPEG_PATH cfg \<noteq> [] \<and> isfile w (FFMPEG_PATH cfg) then
           (case run e Probe [FFMPEG_PATH cfg, ''-encoders''] w of
              (Some result, w') \<Rightarrow>
                if contains (stdout result) ''libx264''
                then (\<lparr>FFMPEG = FFMPEG_PATH cfg, USE_LIBX264 = True\<rparr>, w')
                else (\<lparr>FFMPEG = builtin, USE_LIBX264 = False\<rparr>, w')
            | (None, w') \<Rightarrow> (\<lparr>FFMPEG = builtin, USE_LIBX264 = False\<rparr>, w'))
         else (\<lparr>FFMPEG = builtin, USE_LIBX264 = False\<rparr>, w))"

subsection \<open>\<^verbatim>\<open>generate_proxy\<close>\<close>

text \<open>The argument list of lines 265 to 298. Paths and settings are strings.\<close>

type_synonym path = string

type_synonym setting = string

definition generate_proxy_cmd ::
  "globals \<Rightarrow> path \<Rightarrow> path \<Rightarrow> setting \<Rightarrow> setting \<Rightarrow> setting \<Rightarrow> setting \<Rightarrow> setting
     \<Rightarrow> setting \<Rightarrow> setting \<Rightarrow> setting \<Rightarrow> setting \<Rightarrow> string list" where
  "generate_proxy_cmd g input_file output_file scale vbitrate abitrate codec codec_profile
       container crf preset tune =
     [FFMPEG g, ''-i'', input_file] @
     (if codec = ''h264'' then
        [''-vf'', ''scale='' @ scale @ '':-2'', ''-pix_fmt'', ''yuv420p''] @
        (if USE_LIBX264 g then
           [''-c:v'', ''libx264'', ''-crf'', crf, ''-preset'', preset] @
           (if tune \<noteq> [] then [''-tune'', tune] else [])
         else [''-c:v'', ''libopenh264'', ''-b:v'', vbitrate]) @
        [''-c:a'', ''aac'', ''-b:a'', abitrate, ''-movflags'', ''+faststart'']
      else if codec = ''prores'' then
        (let profile =
               (case map_of [(''proxy'', ''0''), (''lt'', ''1''), (''standard'', ''2''), (''hq'', ''3'')]
                       codec_profile of
                  Some p \<Rightarrow> p
                | None \<Rightarrow> ''1'')
         in [''-vf'', ''scale='' @ scale @ '':-2'', ''-c:v'', ''prores_ks'', ''-profile:v'', profile,
             ''-c:a'', ''pcm_s16le'', ''-ar'', ''48000''])
      else if codec = ''dnxhd'' then
        (let profile = (if codec_profile \<noteq> [] then codec_profile else ''dnxhr_sq'')
         in [''-vf'', ''scale='' @ scale @ '':-2'', ''-pix_fmt'', ''yuv422p'',
             ''-c:v'', ''dnxhd'', ''-profile:v'', profile,
             ''-c:a'', ''pcm_s16le'', ''-ar'', ''48000''])
      else
        [''-vf'', ''scale='' @ scale @ '':-2'', ''-pix_fmt'', ''yuv420p'',
         ''-c:v'', ''libopenh264'', ''-b:v'', vbitrate,
         ''-c:a'', ''aac'', ''-b:a'', abitrate, ''-movflags'', ''+faststart'']) @
     [''-f'', container, ''-loglevel'', ''error'', ''-y'', output_file]"

text \<open>\<open>Inr True\<close> on success, \<open>Inr False\<close> when the encoder exits non-zero, \<open>Inl\<close> for an
  exception that nothing catches. \<^verbatim>\<open>proxy_type\<close> is used for the log only.\<close>

definition generate_proxy ::
  "env \<Rightarrow> globals \<Rightarrow> path \<Rightarrow> path \<Rightarrow> setting \<Rightarrow> setting \<Rightarrow> setting \<Rightarrow> string \<Rightarrow> setting
     \<Rightarrow> setting \<Rightarrow> setting \<Rightarrow> setting \<Rightarrow> setting \<Rightarrow> setting \<Rightarrow> world \<Rightarrow> (exn + bool) \<times> world" where
  "generate_proxy e g input_file output_file scale vbitrate abitrate proxy_type codec
       codec_profile container crf preset tune w =
     (case makedirs (dirname output_file) w of
        (Some x, w1) \<Rightarrow> (Inl x, w1)
      | (None, w1) \<Rightarrow>
          (let cmd = generate_proxy_cmd g input_file output_file scale vbitrate abitrate codec
                       codec_profile container crf preset tune
           in case run e Transcode cmd w1 of
                (None, w2) \<Rightarrow> (Inl OSError, w2)
              | (Some result, w2) \<Rightarrow>
                  if returncode result \<noteq> 0 then (Inr False, w2) else (Inr True, w2)))"

subsection \<open>\<^verbatim>\<open>main\<close>\<close>

text \<open>Lines 329 to 333: which qualities are needed.\<close>

definition need_preview :: "config \<Rightarrow> bool" where
  "need_preview cfg =
     ((ENABLE_P5_PREVIEW cfg \<and> P5_PREVIEW_SOURCE cfg = ''preview'') \<or>
      (ENABLE_WORKFLOW_STORE cfg \<and> WORKFLOW_STORE_SOURCE cfg = ''preview''))"

definition need_workflow :: "config \<Rightarrow> bool" where
  "need_workflow cfg =
     ((ENABLE_P5_PREVIEW cfg \<and> P5_PREVIEW_SOURCE cfg = ''workflow'') \<or>
      (ENABLE_WORKFLOW_STORE cfg \<and> WORKFLOW_STORE_SOURCE cfg = ''workflow''))"

text \<open>
  The body of \<^verbatim>\<open>main\<close> in its five parts, each handing on the world and the local
  variables it has set. An \<^verbatim>\<open>aw.error_exit\<close> ends the run with exit code 1, an exception
  that nothing catches ends it too, and the world at that moment is what remains.

  Lines 339 to 347: the preview quality proxy. The value is \<^verbatim>\<open>preview_proxy_path\<close>.
\<close>

definition main_preview ::
  "env \<Rightarrow> config \<Rightarrow> globals \<Rightarrow> string \<Rightarrow> world \<Rightarrow> (outcome + string) \<times> world" where
  "main_preview e cfg g input_file w =
     (if need_preview cfg then
        (let ext = get_container (PREVIEW_CODEC cfg) (PREVIEW_CONTAINER cfg);
             preview_proxy_path =
               path_join (AW_TEMP e) [path_stem input_file @ ''_preview.'' @ ext]
         in case generate_proxy e g input_file preview_proxy_path
                   (PREVIEW_SCALE cfg) (PREVIEW_VBITRATE cfg) (PREVIEW_ABITRATE cfg)
                   ''preview_quality'' (PREVIEW_CODEC cfg) (PREVIEW_CODEC_PROFILE cfg)
                   ext (PREVIEW_CRF cfg) (PREVIEW_PRESET cfg) (PREVIEW_TUNE cfg) w of
              (Inl x, w') \<Rightarrow> (Inl (Uncaught x), w')
            | (Inr ok, w') \<Rightarrow>
                if \<not> ok then (Inl (Exit1 ''Failed to generate preview quality proxy''), w')
                else (Inr preview_proxy_path, w'))
      else (Inr [], w))"

text \<open>Lines 349 to 357: the workflow quality proxy. The value is
  \<^verbatim>\<open>workflow_proxy_path\<close>.\<close>

definition main_workflow ::
  "env \<Rightarrow> config \<Rightarrow> globals \<Rightarrow> string \<Rightarrow> world \<Rightarrow> (outcome + string) \<times> world" where
  "main_workflow e cfg g input_file w =
     (if need_workflow cfg then
        (let ext = get_container (WORKFLOW_CODEC cfg) (WORKFLOW_CONTAINER cfg);
             workflow_proxy_path =
               path_join (AW_TEMP e) [path_stem input_file @ ''_workflow.'' @ ext]
         in case generate_proxy e g input_file workflow_proxy_path
                   (WORKFLOW_SCALE cfg) (WORKFLOW_VBITRATE cfg) (WORKFLOW_ABITRATE cfg)
                   ''workflow_quality'' (WORKFLOW_CODEC cfg) (WORKFLOW_CODEC_PROFILE cfg)
                   ext (WORKFLOW_CRF cfg) (WORKFLOW_PRESET cfg) (WORKFLOW_TUNE cfg) w of
              (Inl x, w') \<Rightarrow> (Inl (Uncaught x), w')
            | (Inr ok, w') \<Rightarrow>
                if \<not> ok then (Inl (Exit1 ''Failed to generate workflow quality proxy''), w')
                else (Inr workflow_proxy_path, w'))
      else (Inr [], w))"

text \<open>Lines 359 to 367: copy the workflow proxy to its destination.\<close>

definition main_store ::
  "config \<Rightarrow> string \<Rightarrow> string \<Rightarrow> string \<Rightarrow> world \<Rightarrow> exn option \<times> world" where
  "main_store cfg input_file preview_proxy_path workflow_proxy_path w =
     (if ENABLE_WORKFLOW_STORE cfg then
        (let source_path =
               (if WORKFLOW_STORE_SOURCE cfg = ''preview''
                then preview_proxy_path else workflow_proxy_path);
             ext = get_container
                     (if WORKFLOW_STORE_SOURCE cfg = ''preview''
                      then PREVIEW_CODEC cfg else WORKFLOW_CODEC cfg)
                     (if WORKFLOW_STORE_SOURCE cfg = ''preview''
                      then PREVIEW_CONTAINER cfg else WORKFLOW_CONTAINER cfg);
             workflow_dest = build_workflow_path cfg input_file ext
         in case makedirs (dirname workflow_dest) w of
              (Some x, w1) \<Rightarrow> (Some x, w1)
            | (None, w1) \<Rightarrow> copy2 source_path workflow_dest w1)
      else (None, w))"

text \<open>Lines 369 to 378: which file to return. The value is \<^verbatim>\<open>return_path\<close>; the exit
  status of the encoder that draws the dummy image is not looked at.\<close>

definition main_return ::
  "env \<Rightarrow> config \<Rightarrow> globals \<Rightarrow> string \<Rightarrow> string \<Rightarrow> world \<Rightarrow> (exn + string) \<times> world" where
  "main_return e cfg g preview_proxy_path workflow_proxy_path w =
     (if ENABLE_P5_PREVIEW cfg then
        (Inr (if P5_PREVIEW_SOURCE cfg = ''preview''
              then preview_proxy_path else workflow_proxy_path), w)
      else
        (let return_path =
               path_join (AW_TEMP e) [''proxy_dummy_'' @ str_nat (getpid e) @ ''.jpg'']
         in case run e Placeholder
                   [FFMPEG g, ''-hide_banner'', ''-loglevel'', ''error'', ''-f'', ''lavfi'',
                    ''-i'', ''color=c=gray:s=64x64:d=1'', ''-frames:v'', ''1'', ''-y'',
                    return_path] w of
              (None, w') \<Rightarrow> (Inl OSError, w')
            | (Some result, w') \<Rightarrow> (Inr return_path, w')))"

text \<open>Lines 380 to 393: verify the return file, remove the temporary files that are not
  returned, print the path.\<close>

definition cleanup :: "string \<Rightarrow> world \<Rightarrow> string \<Rightarrow> world" where
  "cleanup return_path w path =
     (if path \<noteq> [] \<and> isfile w path \<and> path \<noteq> return_path then remove_file path w else w)"

definition main_finish :: "string \<Rightarrow> string \<Rightarrow> string \<Rightarrow> world \<Rightarrow> outcome \<times> world" where
  "main_finish preview_proxy_path workflow_proxy_path return_path w =
     (if return_path = [] \<or> \<not> isfile w return_path
      then (Exit1 (''Return path invalid: '' @ return_path), w)
      else (Exit0,
            emit (Print return_path)
              (foldl (cleanup return_path) w [preview_proxy_path, workflow_proxy_path])))"

definition main :: "env \<Rightarrow> config \<Rightarrow> string list \<Rightarrow> world \<Rightarrow> outcome \<times> world" where
  "main e cfg argv w =
     (if length argv < 2 then (Exit1 ''No input file specified'', w)
      else
        (let input_file = argv ! 1
         in case init_ffmpeg e cfg w of
              (g, w0) \<Rightarrow>
                if \<not> isfile w0 input_file
                then (Exit1 (''Input file not found: '' @ input_file), w0)
                else
                  (case main_preview e cfg g input_file w0 of
                     (Inl out, w1) \<Rightarrow> (out, w1)
                   | (Inr preview_proxy_path, w1) \<Rightarrow>
                  (case main_workflow e cfg g input_file w1 of
                     (Inl out, w2) \<Rightarrow> (out, w2)
                   | (Inr workflow_proxy_path, w2) \<Rightarrow>
                  (case main_store cfg input_file preview_proxy_path workflow_proxy_path w2 of
                     (Some x, w3) \<Rightarrow> (Uncaught x, w3)
                   | (None, w3) \<Rightarrow>
                  (case main_return e cfg g preview_proxy_path workflow_proxy_path w3 of
                     (Inl x, w4) \<Rightarrow> (Uncaught x, w4)
                   | (Inr return_path, w4) \<Rightarrow>
                       main_finish preview_proxy_path workflow_proxy_path return_path w4))))))"

text \<open>A run starts with the files that are there and has made no call yet.\<close>

definition start :: "string set \<Rightarrow> world" where
  "start fs = \<lparr>files = fs, trace = []\<rparr>"

subsection \<open>Reading a trace\<close>

text \<open>The encoder invocations made by \<^verbatim>\<open>generate_proxy\<close>, with their exit status.\<close>

fun transcodes :: "event list \<Rightarrow> (string list \<times> int option) list" where
  "transcodes [] = []"
| "transcodes (Spawn Transcode cmd rc # es) = (cmd, rc) # transcodes es"
| "transcodes (ev # es) = transcodes es"


text \<open>The output file of an encoder invocation is the last argument of its command; the
  artifacts of a run are the output files of its transcodes.\<close>

definition artifacts :: "event list \<Rightarrow> string list" where
  "artifacts tr = map (\<lambda>(cmd, rc). last cmd) (transcodes tr)"

text \<open>The outputs of the transcodes of a trace that ended with exit status 0, added to
  those in the first argument.\<close>

fun encoded :: "string list \<Rightarrow> event list \<Rightarrow> string list" where
  "encoded enc [] = enc"
| "encoded enc (Spawn Transcode cmd rc # es) =
     encoded (if rc = Some 0 then last cmd # enc else enc) es"
| "encoded enc (ev # es) = encoded enc es"


subsection \<open>Notions the properties are stated with\<close>

text \<open>The two OutputSpecs of the configuration, each a pair of \<open>enabled\<close> and
  \<open>qualitySource\<close>, and the set of tiers the need analysis asks for.\<close>

definition output_specs :: "config \<Rightarrow> (bool \<times> string) list" where
  "output_specs cfg =
     [(ENABLE_P5_PREVIEW cfg, P5_PREVIEW_SOURCE cfg),
      (ENABLE_WORKFLOW_STORE cfg, WORKFLOW_STORE_SOURCE cfg)]"

definition needed_tiers :: "config \<Rightarrow> string set" where
  "needed_tiers cfg =
     (if need_preview cfg then {''preview''} else {}) \<union>
     (if need_workflow cfg then {''workflow''} else {})"

text \<open>The tiers a run has transcoded, read off its trace: a tier counts when an encoder
  invocation of the run wrote to the temp path of that tier. The two temp paths are
  defined below as \<^verbatim>\<open>main\<close> builds them.\<close>

definition tier_path :: "string \<Rightarrow> string \<Rightarrow> string \<Rightarrow> string \<Rightarrow> string" where
  "tier_path temp input_file tier ext = path_join temp [path_stem input_file @ ''_'' @ tier @ ''.'' @ ext]"

definition transcoded_tiers :: "env \<Rightarrow> config \<Rightarrow> string \<Rightarrow> event list \<Rightarrow> string set" where
  "transcoded_tiers e cfg input_file tr =
     (if tier_path (AW_TEMP e) input_file ''preview''
           (get_container (PREVIEW_CODEC cfg) (PREVIEW_CONTAINER cfg)) \<in> set (artifacts tr)
      then {''preview''} else {}) \<union>
     (if tier_path (AW_TEMP e) input_file ''workflow''
           (get_container (WORKFLOW_CODEC cfg) (WORKFLOW_CONTAINER cfg)) \<in> set (artifacts tr)
      then {''workflow''} else {})"

text \<open>An absolute path starts with a slash; a root is a non-empty run of slashes.\<close>

definition is_abs :: "string \<Rightarrow> bool" where
  "is_abs p = startswith p [slash]"

definition is_root :: "string \<Rightarrow> bool" where
  "is_root p = (p \<noteq> [] \<and> p = replicate (length p) slash)"

text \<open>The temp paths of the two tier artifacts and of the placeholder image, as
  \<^verbatim>\<open>main\<close> builds them.\<close>

definition preview_path :: "env \<Rightarrow> config \<Rightarrow> string \<Rightarrow> string" where
  "preview_path e cfg input_file =
     path_join (AW_TEMP e)
       [path_stem input_file @ ''_preview.'' @
        get_container (PREVIEW_CODEC cfg) (PREVIEW_CONTAINER cfg)]"

definition workflow_path :: "env \<Rightarrow> config \<Rightarrow> string \<Rightarrow> string" where
  "workflow_path e cfg input_file =
     path_join (AW_TEMP e)
       [path_stem input_file @ ''_workflow.'' @
        get_container (WORKFLOW_CODEC cfg) (WORKFLOW_CONTAINER cfg)]"

text \<open>The encoder commands of the two tiers, as \<^verbatim>\<open>main\<close> passes them to
  \<^verbatim>\<open>generate_proxy\<close>.\<close>

definition preview_cmd :: "env \<Rightarrow> config \<Rightarrow> globals \<Rightarrow> string \<Rightarrow> string list" where
  "preview_cmd e cfg g input_file =
     generate_proxy_cmd g input_file (preview_path e cfg input_file)
       (PREVIEW_SCALE cfg) (PREVIEW_VBITRATE cfg) (PREVIEW_ABITRATE cfg)
       (PREVIEW_CODEC cfg) (PREVIEW_CODEC_PROFILE cfg)
       (get_container (PREVIEW_CODEC cfg) (PREVIEW_CONTAINER cfg))
       (PREVIEW_CRF cfg) (PREVIEW_PRESET cfg) (PREVIEW_TUNE cfg)"

definition workflow_cmd :: "env \<Rightarrow> config \<Rightarrow> globals \<Rightarrow> string \<Rightarrow> string list" where
  "workflow_cmd e cfg g input_file =
     generate_proxy_cmd g input_file (workflow_path e cfg input_file)
       (WORKFLOW_SCALE cfg) (WORKFLOW_VBITRATE cfg) (WORKFLOW_ABITRATE cfg)
       (WORKFLOW_CODEC cfg) (WORKFLOW_CODEC_PROFILE cfg)
       (get_container (WORKFLOW_CODEC cfg) (WORKFLOW_CONTAINER cfg))
       (WORKFLOW_CRF cfg) (WORKFLOW_PRESET cfg) (WORKFLOW_TUNE cfg)"


text \<open>The exit status an external program gives for a command on given files, \<open>None\<close>
  when it cannot be run.\<close>

definition exit_status :: "env \<Rightarrow> string list \<Rightarrow> string set \<Rightarrow> int option" where
  "exit_status e cmd fs = map_option returncode (fst (subprocess_run e cmd fs))"

text \<open>The run gets as far as the encoding stage: an input file is named and is there once
  the encoder has been chosen.\<close>

definition input_accepted :: "env \<Rightarrow> config \<Rightarrow> string list \<Rightarrow> string set \<Rightarrow> bool" where
  "input_accepted e cfg argv fs =
     (2 \<le> length argv \<and> isfile (snd (init_ffmpeg e cfg (start fs))) (argv ! 1))"

subsection \<open>A concrete environment\<close>

text \<open>An encoder that always succeeds and writes its last argument, and the example rule
  of the source's configuration comment.\<close>

definition demo_env :: env where
  "demo_env =
     \<lparr>AW_TEMP = ''/usr/local/aw/temp'', AW_BIN = ''/usr/local/aw/bin'', getpid = 4242,
      subprocess_run =
        (\<lambda>cmd fs. (Some \<lparr>returncode = 0, stdout = [], stderr = []\<rparr>, insert (last cmd) fs))\<rparr>"

definition demo_argv :: "string list" where
  "demo_argv = [''p5_proxy_generator.py'', ''/Volumes/RAW/Footage/A001.mov'']"

definition demo_files :: "string set" where
  "demo_files = {''/Volumes/RAW/Footage/A001.mov''}"

definition example_rule :: config where
  "example_rule =
     default_config\<lparr>WORKFLOW_PROJECT_FOLDER := ''Projects'',
                    WORKFLOW_NEW_BASE := ''/Volumes/Proxies''\<rparr>"

section \<open>Properties\<close>

subsection \<open>Strings and paths\<close>

lemma take_rfind1: "take (rfind1 c s) s = rev (dropWhile (\<lambda>x. x \<noteq> c) (rev s))"
proof -
  have "rev s = takeWhile (\<lambda>x. x \<noteq> c) (rev s) @ dropWhile (\<lambda>x. x \<noteq> c) (rev s)"
    by simp
  then have "s = rev (dropWhile (\<lambda>x. x \<noteq> c) (rev s)) @ rev (takeWhile (\<lambda>x. x \<noteq> c) (rev s))"
    by (metis rev_append rev_rev_ident)
  then show ?thesis
    unfolding rfind1_def by (metis append_eq_conv_conj length_rev)
qed

lemma rfind1_replicate: "rfind1 c (replicate n c) = n"
  by (cases n) (simp_all add: rfind1_def replicate_append_same)

lemma rfind1_none: "c \<notin> set s \<Longrightarrow> rfind1 c s = 0"
  by (auto simp: rfind1_def dropWhile_eq_Nil_conv)

lemma rfind1_append_no: "c \<notin> set ys \<Longrightarrow> rfind1 c (xs @ ys) = rfind1 c xs"
proof -
  assume "c \<notin> set ys"
  then have "dropWhile (\<lambda>x. x \<noteq> c) (rev ys @ rev xs) = dropWhile (\<lambda>x. x \<noteq> c) (rev xs)"
    by (intro dropWhile_append2) auto
  then show ?thesis by (simp add: rfind1_def)
qed

lemma rfind1_snoc: "rfind1 c (xs @ [c]) = Suc (length xs)"
  by (simp add: rfind1_def)

lemma startswith_slash: "startswith s [slash] \<longleftrightarrow> (s \<noteq> [] \<and> hd s = slash)"
  by (cases s) (auto simp: startswith_def)

lemma endswith_slash: "endswith s [slash] \<longleftrightarrow> (s \<noteq> [] \<and> last s = slash)"
proof (cases s rule: rev_cases)
  case Nil
  then show ?thesis by (simp add: endswith_def)
next
  case (snoc ys y)
  then show ?thesis by (auto simp: endswith_def)
qed

lemma endswith_iff: "endswith s t \<longleftrightarrow> (\<exists>p. s = p @ t)"
proof
  assume "endswith s t"
  then have "s = take (length s - length t) s @ t"
    by (metis append_take_drop_id endswith_def)
  then show "\<exists>p. s = p @ t" ..
next
  assume "\<exists>p. s = p @ t"
  then show "endswith s t" by (auto simp: endswith_def)
qed

lemma split_on_nonempty: "split_on c s \<noteq> []"
  by (induction s) (auto split: list.splits)

lemma split_on_no_sep: "x \<in> set (split_on c s) \<Longrightarrow> c \<notin> set x"
  by (induction s arbitrary: x) (auto split: list.splits if_splits)

lemma split_on_no_sep_id: "c \<notin> set s \<Longrightarrow> split_on c s = [s]"
  by (induction s) auto

lemma split_on_append:
  "split_on c (xs @ c # ys) = split_on c xs @ split_on c ys"
proof (induction xs)
  case Nil
  then show ?case by simp
next
  case (Cons x xs)
  obtain h t where ht: "split_on c xs = h # t"
    using split_on_nonempty [of c xs] by (cases "split_on c xs") auto
  with Cons show ?case by simp
qed

lemma split_on_hd:
  "\<exists>rest. s = hd (split_on c s) @ rest \<and> (rest = [] \<or> hd rest = c)"
proof (induction s)
  case Nil
  then show ?case by simp
next
  case (Cons x xs)
  obtain h t where ht: "split_on c xs = h # t"
    using split_on_nonempty [of c xs] by (cases "split_on c xs") auto
  from Cons ht obtain rest where "xs = h @ rest" "rest = [] \<or> hd rest = c" by auto
  with ht show ?case by (cases "x = c") auto
qed

lemma split_on_tl_mem:
  "x \<in> set (tl (split_on c s)) \<Longrightarrow>
     \<exists>pre post. s = pre @ c # x @ post \<and> (post = [] \<or> hd post = c)"
proof (induction s)
  case Nil
  then show ?case by simp
next
  case (Cons y ys)
  obtain h t where ht: "split_on c ys = h # t"
    using split_on_nonempty [of c ys] by (cases "split_on c ys") auto
  show ?case
  proof (cases "y = c")
    case True
    with Cons.prems ht have "x = h \<or> x \<in> set (tl (split_on c ys))" by auto
    then show ?thesis
    proof
      assume "x = h"
      with split_on_hd [of ys c] ht obtain rest where
        "ys = x @ rest" "rest = [] \<or> hd rest = c" by auto
      with True show ?thesis by (intro exI [of _ "[]"] exI [of _ rest]) simp
    next
      assume "x \<in> set (tl (split_on c ys))"
      from Cons.IH [OF this] obtain pre post where
        "ys = pre @ c # x @ post" "post = [] \<or> hd post = c" by blast
      then show ?thesis by (intro exI [of _ "y # pre"] exI [of _ post]) simp
    qed
  next
    case False
    with Cons.prems ht have "x \<in> set (tl (split_on c ys))" by simp
    from Cons.IH [OF this] obtain pre post where
      "ys = pre @ c # x @ post" "post = [] \<or> hd post = c" by blast
    then show ?thesis by (intro exI [of _ "y # pre"] exI [of _ post]) simp
  qed
qed

lemma segment_of_delimited:
  assumes "c \<notin> set m"
  shows "m \<in> set (tl (split_on c (pre @ c # m @ c # post)))"
    and "m \<in> set (tl (split_on c (pre @ c # m)))"
proof -
  have "split_on c (pre @ c # m @ c # post) = split_on c pre @ split_on c (m @ c # post)"
    by (rule split_on_append)
  also have "split_on c (m @ c # post) = split_on c m @ split_on c post"
    by (rule split_on_append)
  also have "split_on c m = [m]" using assms by (rule split_on_no_sep_id)
  finally show "m \<in> set (tl (split_on c (pre @ c # m @ c # post)))"
    using split_on_nonempty [of c pre] by (cases "split_on c pre") auto
  have "split_on c (pre @ c # m) = split_on c pre @ split_on c m"
    by (rule split_on_append)
  also have "split_on c m = [m]" using assms by (rule split_on_no_sep_id)
  finally show "m \<in> set (tl (split_on c (pre @ c # m)))"
    using split_on_nonempty [of c pre] by (cases "split_on c pre") auto
qed

lemma path_name_no_slash: "slash \<notin> set (path_name p)"
proof (cases "filter (\<lambda>x. x \<noteq> [] \<and> x \<noteq> ''.'') (split_on slash p)")
  case Nil
  then show ?thesis by (simp add: path_name_def)
next
  case (Cons x xs)
  then have "last (x # xs) \<in> set (filter (\<lambda>x. x \<noteq> [] \<and> x \<noteq> ''.'') (split_on slash p))"
    by (metis last_in_set list.distinct(1))
  then have "last (x # xs) \<in> set (split_on slash p)" by simp
  then have "slash \<notin> set (last (x # xs))" by (rule split_on_no_sep)
  with Cons show ?thesis by (simp add: path_name_def)
qed

lemma path_stem_no_slash: "slash \<notin> set (path_stem p)"
  using path_name_no_slash [of p]
  by (auto simp: path_stem_def Let_def dest: in_set_takeD)

lemma path_join_single:
  "path_join d [n] =
     (if startswith n [slash] then n
      else if d = [] \<or> endswith d [slash] then d @ n else d @ slash # n)"
  by (simp add: path_join_def join_step_def)

lemma path_join_one:
  assumes "nb \<noteq> []" "\<not> startswith m [slash]"
  shows "path_join nb [m] = nb @ (if endswith nb [slash] then [] else [slash]) @ m"
  using assms by (simp add: path_join_single)

lemma path_join_two:
  assumes "nb \<noteq> []" "m \<noteq> []" "\<not> startswith m [slash]" "\<not> startswith post [slash]"
  shows "path_join nb [m, post] =
           nb @ (if endswith nb [slash] then [] else [slash]) @
           m @ (if endswith m [slash] then [] else [slash]) @ post"
proof -
  define nbm where "nbm = nb @ (if endswith nb [slash] then [] else [slash]) @ m"
  have 1: "join_step nb m = nbm"
    using assms by (simp add: join_step_def nbm_def)
  have ne: "nbm \<noteq> []" using assms by (simp add: nbm_def)
  have e: "endswith nbm [slash] = endswith m [slash]"
    using assms(2) by (simp add: endswith_slash nbm_def)
  have "join_step nbm post = nbm @ (if endswith m [slash] then [] else [slash]) @ post"
    using assms(4) ne e by (simp add: join_step_def)
  with 1 show ?thesis by (simp add: path_join_def nbm_def)
qed

lemma path_basename_join:
  assumes "slash \<notin> set n"
  shows "path_basename (path_join d [n]) = n"
proof -
  have ns: "\<not> startswith n [slash]" using assms by (cases n) (auto simp: startswith_def)
  have a: "path_basename n = n" using assms
    by (simp add: path_basename_def rfind1_none)
  have b: "path_basename (xs @ slash # n) = n" for xs
    using assms rfind1_append_no [of slash n "xs @ [slash]"]
    by (simp add: path_basename_def rfind1_snoc)
  show ?thesis
  proof (cases "d = []")
    case True
    with ns a show ?thesis by (simp add: path_join_single)
  next
    case False
    show ?thesis
    proof (cases "endswith d [slash]")
      case True
      then obtain xs where "d = xs @ [slash]"
        by (metis endswith_slash append_butlast_last_id)
      with ns True b [of xs] show ?thesis by (simp add: path_join_single)
    next
      case False
      with ns b [of d] \<open>d \<noteq> []\<close> show ?thesis by (simp add: path_join_single)
    qed
  qed
qed

lemma endswith_path_join: "endswith (path_join d [n]) n"
  by (auto simp: path_join_single endswith_def)

subsection \<open>Parent directories and the root\<close>

lemma is_abs_iff: "is_abs p \<longleftrightarrow> (\<exists>q. p = slash # q)"
  by (cases p) (auto simp: is_abs_def startswith_def)

lemma head_abs: "take (rfind1 slash (slash # q)) (slash # q) = slash # take (rfind1 slash q) q"
  unfolding take_rfind1 by (simp add: dropWhile_append3)

lemma rstrip_abs:
  assumes "slash # h \<noteq> replicate (length (slash # h)) slash"
  shows "\<exists>r. rstrip slash (slash # h) = slash # r"
proof -
  from assms have "h \<noteq> replicate (length h) slash" by simp
  then have "\<exists>x\<in>set h. x \<noteq> slash"
    by (metis replicate_eqI)
  then have "dropWhile (\<lambda>x. x = slash) (rev h @ [slash]) = dropWhile (\<lambda>x. x = slash) (rev h) @ [slash]"
    by (auto intro: dropWhile_append1)
  then show ?thesis by (simp add: rstrip_def)
qed

lemma dirname_abs:
  assumes "is_abs p"
  shows "is_abs (dirname p)"
proof -
  from assms obtain q where p: "p = slash # q" by (auto simp: is_abs_iff)
  define h where "h = take (rfind1 slash q) q"
  have head: "take (rfind1 slash p) p = slash # h"
    by (simp add: p h_def head_abs)
  show ?thesis
  proof (cases "slash # h = replicate (length (slash # h)) slash")
    case True
    then have "dirname p = slash # h"
      unfolding dirname_def Let_def head by simp
    then show ?thesis by (simp add: is_abs_iff)
  next
    case False
    then have "dirname p = rstrip slash (slash # h)"
      unfolding dirname_def Let_def head by simp
    with rstrip_abs [OF False] show ?thesis by (auto simp: is_abs_iff)
  qed
qed

lemma dirname_root: 
  assumes "is_root p" shows "dirname p = p"
proof -
  from assms obtain n where p: "p = replicate n slash" by (auto simp: is_root_def)
  show ?thesis
    by (simp add: dirname_def Let_def p rfind1_replicate)
qed

lemma head_last_slash:
  assumes "take (rfind1 slash p) p \<noteq> []"
  shows "last (take (rfind1 slash p) p) = slash"
proof -
  define ys where "ys = dropWhile (\<lambda>x. x \<noteq> slash) (rev p)"
  have t: "take (rfind1 slash p) p = rev ys"
    by (simp only: take_rfind1 ys_def)
  from assms have ne: "ys \<noteq> []" unfolding t by simp
  then have "\<not> hd ys \<noteq> slash"
    unfolding ys_def by (rule hd_dropWhile)
  then have "hd ys = slash" by simp
  with ne show ?thesis unfolding t by (simp add: last_rev)
qed

lemma rstrip_shorter:
  assumes "h \<noteq> []" "last h = slash"
  shows "length (rstrip slash h) < length h"
proof -
  from assms obtain b where h: "h = b @ [slash]" by (metis append_butlast_last_id)
  have "length (dropWhile (\<lambda>x. x = slash) (rev b)) \<le> length (rev b)"
    by (rule length_dropWhile_le)
  then show ?thesis by (simp add: rstrip_def h)
qed

lemma dirname_shorter:
  assumes "is_abs p" "\<not> is_root p"
  shows "length (dirname p) < length p"
proof -
  define head where "head = take (rfind1 slash p) p"
  have len: "length head \<le> length p" by (simp add: head_def)
  from assms(1) obtain q where "p = slash # q" by (auto simp: is_abs_iff)
  then have "head = slash # take (rfind1 slash q) q"
    unfolding head_def by (simp only: head_abs)
  then have ne: "head \<noteq> []" by simp
  have dn: "dirname p =
      (if head \<noteq> [] \<and> head \<noteq> replicate (length head) slash
       then rstrip slash head else head)"
    unfolding dirname_def Let_def head_def by (rule refl)
  show ?thesis
  proof (cases "head \<noteq> [] \<and> head \<noteq> replicate (length head) slash")
    case False
    have d: "dirname p = head" unfolding dn using False by (rule if_not_P)
    have "length head \<noteq> length p"
    proof
      assume "length head = length p"
      then have "head = p" by (simp add: head_def)
      with False ne assms(2) show False by (simp add: is_root_def)
    qed
    with len d show ?thesis by simp
  next
    case True
    have d: "dirname p = rstrip slash head" unfolding dn using True by (rule if_P)
    have "last head = slash" using ne head_last_slash unfolding head_def by blast
    with ne have "length (rstrip slash head) < length head" by (rule rstrip_shorter)
    with len d show ?thesis by simp
  qed
qed

lemma remove_levels_abs: "is_abs d \<Longrightarrow> is_abs ((dirname ^^ n) d)"
  by (induction n) (simp_all add: dirname_abs)

lemma remove_levels_root: "is_root d \<Longrightarrow> (dirname ^^ n) d = d"
  by (induction n) (simp_all add: dirname_root)

lemma funpow_dirname_reaches_root:
  "is_abs d \<Longrightarrow> length d \<le> Suc n \<Longrightarrow> is_root ((dirname ^^ n) d)"
proof (induction n arbitrary: d)
  case 0
  then show ?case by (cases d) (auto simp: is_abs_iff is_root_def)
next
  case (Suc n)
  show ?case
  proof (cases "is_root d")
    case True
    then show ?thesis by (simp add: remove_levels_root del: funpow.simps)
  next
    case False
    with Suc.prems have "length (dirname d) \<le> Suc n"
      using dirname_shorter [of d] by simp
    moreover have "is_abs (dirname d)" using Suc.prems by (simp add: dirname_abs)
    ultimately have "is_root ((dirname ^^ n) (dirname d))" by (rule Suc.IH [rotated])
    then show ?thesis by (simp add: funpow_swap1)
  qed
qed

lemma dirname_fixed_iff_root:
  assumes "is_abs p"
  shows "dirname p = p \<longleftrightarrow> is_root p"
proof
  assume fixed: "dirname p = p"
  show "is_root p"
  proof (rule ccontr)
    assume "\<not> is_root p"
    with assms have "length (dirname p) < length p" by (rule dirname_shorter)
    then show False unfolding fixed by simp
  qed
next
  assume "is_root p"
  then show "dirname p = p" by (rule dirname_root)
qed

text \<open>
  C9. Level trimming never leaves the root behind. Trimming an absolute directory any
  number of times gives an absolute directory; with at least as many levels as the
  directory has characters it gives a root; a root is the only absolute directory that its
  parent directory equals; and once the trimmed directory is a root, trimming further
  changes nothing.
\<close>

theorem remove_levels_never_past_root:
  "is_abs d \<Longrightarrow>
     is_abs (remove_levels n d) \<and>
     (length d \<le> Suc (nat n) \<longrightarrow> is_root (remove_levels n d)) \<and>
     (dirname (remove_levels n d) = remove_levels n d \<longleftrightarrow> is_root (remove_levels n d)) \<and>
     (is_root (remove_levels n d) \<longrightarrow> 0 \<le> n \<longrightarrow> 0 \<le> k \<longrightarrow>
        remove_levels (n + k) d = remove_levels n d) \<and>
     remove_levels n [slash] = [slash]"
proof (intro conjI impI)
  assume a: "is_abs d"
  then show r: "is_abs (remove_levels n d)"
    by (simp add: remove_levels_def remove_levels_abs)
  show "dirname (remove_levels n d) = remove_levels n d \<longleftrightarrow> is_root (remove_levels n d)"
    using r by (rule dirname_fixed_iff_root)
  show "is_root (remove_levels n d)" if "length d \<le> Suc (nat n)"
    using a that by (simp add: remove_levels_def funpow_dirname_reaches_root)
next
  assume r: "is_root (remove_levels n d)" and n: "0 \<le> n" and k: "0 \<le> k"
  have "nat (n + k) = nat k + nat n" using n k by simp
  then have "remove_levels (n + k) d = (dirname ^^ nat k) (remove_levels n d)"
    by (simp add: remove_levels_def funpow_add)
  also have "\<dots> = remove_levels n d" using r by (rule remove_levels_root)
  finally show "remove_levels (n + k) d = remove_levels n d" .
next
  have "is_root [slash]" by (simp add: is_root_def)
  then show "remove_levels n [slash] = [slash]"
    by (simp add: remove_levels_def remove_levels_root)
qed

theorem remove_levels_never_past_root_witness:
  "is_abs ''/Volumes/RAW'' \<and>
   is_abs (remove_levels 1 ''/Volumes/RAW'') \<and>
   is_root (remove_levels 12 ''/Volumes/RAW'') \<and>
   remove_levels (12 + 30) ''/Volumes/RAW'' = remove_levels 12 ''/Volumes/RAW''"
proof -
  have a: "is_abs ''/Volumes/RAW''"
    by (simp add: is_abs_def startswith_def slash_def)
  have l: "length ''/Volumes/RAW'' \<le> Suc (nat 12)" by simp
  from remove_levels_never_past_root [OF a, of 1 0]
  have 1: "is_abs (remove_levels 1 ''/Volumes/RAW'')" by blast
  from remove_levels_never_past_root [OF a, of 12 30] l
  have 2: "is_root (remove_levels 12 ''/Volumes/RAW'')"
    and 3: "remove_levels (12 + 30) ''/Volumes/RAW'' = remove_levels 12 ''/Volumes/RAW''"
    by simp_all
  from a 1 2 3 show ?thesis by blast
qed

subsection \<open>The marker search\<close>

lemma match_here_append:
  "length m < length xs \<Longrightarrow> match_here m (c # xs @ ys) = match_here m (c # xs)"
  by (cases "drop (length m) xs") (auto simp: match_here_def startswith_def)

lemma match_here_exact:
  "is_sep a \<Longrightarrow> is_sep b \<Longrightarrow> match_here m (a # m @ b # post)"
  by (simp add: match_here_def startswith_def)

lemma match_here_shape:
  "match_here m s \<Longrightarrow> \<exists>a b post. s = a # m @ b # post \<and> is_sep a \<and> is_sep b"
proof (cases s)
  case Nil
  assume "match_here m s"
  with Nil show ?thesis by (simp add: match_here_def)
next
  case (Cons c cs)
  assume mh: "match_here m s"
  with Cons obtain d ds where d: "drop (length m) cs = d # ds" and "is_sep d" and "is_sep c"
    and t: "take (length m) cs = m"
    by (auto simp: match_here_def startswith_def split: list.splits)
  have "cs = take (length m) cs @ drop (length m) cs" by simp
  with d t have "cs = m @ d # ds" by simp
  with Cons \<open>is_sep c\<close> \<open>is_sep d\<close> show ?thesis by blast
qed

lemma match_here_short: "length s \<le> Suc (length m) \<Longrightarrow> \<not> match_here m s"
  by (auto simp: match_here_def startswith_def split: list.splits)

lemma marker_search_short: "length s \<le> Suc (length m) \<Longrightarrow> marker_search m s = None"
  by (induction s) (simp_all add: match_here_short)

lemma marker_search_first:
  "is_sep a \<Longrightarrow> is_sep b \<Longrightarrow> marker_search m (pre @ a # m) = None \<Longrightarrow>
     marker_search m (pre @ a # m @ b # post) = Some post"
proof (induction pre)
  case Nil
  then show ?case by (simp add: match_here_exact)
next
  case (Cons c pre)
  from Cons.prems(3) have nm: "\<not> match_here m (c # pre @ a # m)"
    and rest: "marker_search m (pre @ a # m) = None"
    by (auto split: if_splits)
  have "match_here m (c # (pre @ a # m) @ b # post) = match_here m (c # pre @ a # m)"
    by (rule match_here_append) simp
  with nm have "\<not> match_here m (c # pre @ a # m @ b # post)" by simp
  with Cons.IH [OF Cons.prems(1,2) rest] show ?case by simp
qed

lemma marker_search_sound:
  "marker_search m d = Some post \<Longrightarrow>
     \<exists>pre a b. d = pre @ a # m @ b # post \<and> is_sep a \<and> is_sep b \<and>
       marker_search m (pre @ a # m) = None"
proof (induction d)
  case Nil
  then show ?case by simp
next
  case (Cons c cs)
  show ?case
  proof (cases "match_here m (c # cs)")
    case True
    then obtain a b post' where s: "c # cs = a # m @ b # post'" and ab: "is_sep a" "is_sep b"
      using match_here_shape by blast
    from True Cons.prems s have "post = post'" by simp
    moreover have "marker_search m (a # m) = None"
      by (rule marker_search_short) simp
    ultimately show ?thesis using s ab by (intro exI [of _ "[]"]) auto
  next
    case False
    with Cons.prems have "marker_search m cs = Some post" by simp
    from Cons.IH [OF this] obtain pre a b where
      cs: "cs = pre @ a # m @ b # post" and ab: "is_sep a" "is_sep b"
      and n: "marker_search m (pre @ a # m) = None" by blast
    have "match_here m (c # (pre @ a # m) @ b # post) = match_here m (c # pre @ a # m)"
      by (rule match_here_append) simp
    with False cs have "\<not> match_here m (c # pre @ a # m)" by simp
    with n have "marker_search m ((c # pre) @ a # m) = None" by simp
    with cs ab show ?thesis by (intro exI [of _ "c # pre"]) auto
  qed
qed

lemma marker_search_complete:
  "is_sep a \<Longrightarrow> is_sep b \<Longrightarrow> marker_search m (pre @ a # m @ b # post) \<noteq> None"
  by (induction pre) (simp_all add: match_here_exact)

lemma marker_search_None_iff:
  "marker_search m d = None \<longleftrightarrow>
     \<not> (\<exists>pre a b post. d = pre @ a # m @ b # post \<and> is_sep a \<and> is_sep b)"
proof
  assume "marker_search m d = None"
  then show "\<not> (\<exists>pre a b post. d = pre @ a # m @ b # post \<and> is_sep a \<and> is_sep b)"
    using marker_search_complete by blast
next
  assume n: "\<not> (\<exists>pre a b post. d = pre @ a # m @ b # post \<and> is_sep a \<and> is_sep b)"
  show "marker_search m d = None"
  proof (cases "marker_search m d")
    case None
    then show ?thesis .
  next
    case (Some post)
    from marker_search_sound [OF this] n show ?thesis by blast
  qed
qed

text \<open>
  C4, as amended. With both \<open>markerFolder\<close> and \<open>newBase\<close> set and a marker that is a
  folder name (no slash in it), the mapper looks for the first place in the source
  directory where the marker stands between two separator characters, each a slash or a
  backslash.
  \<^item> For the first such place, in a directory \<open>pre / marker / post\<close> where \<open>post\<close> does not
    begin with a slash, the directory becomes \<open>newBase/markerFolder/post\<close> (no slash is
    added after a \<open>newBase\<close> that ends with one).
  \<^item> With no such place and a directory that ends with \<open>/marker\<close>, it becomes
    \<open>newBase/markerFolder\<close>.
  \<^item> Otherwise the directory is kept.
  \<^item> In a directory without backslashes one of the first two cases applies exactly when
    the marker is a whole segment of the directory other than its first: there the marker
    is never matched inside another folder name.
\<close>

theorem replace_base_at_first_marker:
  assumes "WORKFLOW_PROJECT_FOLDER cfg = m" and "WORKFLOW_NEW_BASE cfg = nb"
    and "m \<noteq> []" and "nb \<noteq> []" and "slash \<notin> set m"
  shows
    "(is_sep a \<and> is_sep b \<and> marker_search m (pre @ a # m) = None \<and> \<not> startswith post [slash] \<longrightarrow>
        replace_base cfg (pre @ a # m @ b # post) =
          nb @ (if endswith nb [slash] then [] else [slash]) @ m @ slash # post) \<and>
     (marker_search m d1 = None \<and> endswith d1 (slash # m) \<longrightarrow>
        replace_base cfg d1 = nb @ (if endswith nb [slash] then [] else [slash]) @ m) \<and>
     (marker_search m d2 = None \<and> \<not> endswith d2 (slash # m) \<longrightarrow> replace_base cfg d2 = d2) \<and>
     (backslash \<notin> set d3 \<longrightarrow>
        (marker_search m d3 \<noteq> None \<or> endswith d3 (slash # m)) =
        (m \<in> set (tl (split_on slash d3))))"
proof (intro conjI impI)
  have ms: "\<not> startswith m [slash]"
    using assms(5) hd_in_set [of m] unfolding startswith_slash by metis
  have me: "\<not> endswith m [slash]"
    using assms(5) last_in_set [of m] unfolding endswith_slash by metis
  {
    assume h: "is_sep a \<and> is_sep b \<and> marker_search m (pre @ a # m) = None \<and>
      \<not> startswith post [slash]"
    then have "marker_search m (pre @ a # m @ b # post) = Some post"
      by (simp add: marker_search_first)
    then have "replace_base cfg (pre @ a # m @ b # post) = path_join nb [m, post]"
      using assms by (simp add: replace_base_def)
    also have "\<dots> = nb @ (if endswith nb [slash] then [] else [slash]) @
                   m @ (if endswith m [slash] then [] else [slash]) @ post"
      using assms(4,3) ms h by (intro path_join_two) auto
    finally show "replace_base cfg (pre @ a # m @ b # post) =
        nb @ (if endswith nb [slash] then [] else [slash]) @ m @ slash # post"
      using me by simp
  }
  {
    assume "marker_search m d1 = None \<and> endswith d1 (slash # m)"
    then have "replace_base cfg d1 = path_join nb [m]"
      using assms by (simp add: replace_base_def)
    then show "replace_base cfg d1 = nb @ (if endswith nb [slash] then [] else [slash]) @ m"
      using assms(4) ms by (simp add: path_join_one)
  }
  {
    assume "marker_search m d2 = None \<and> \<not> endswith d2 (slash # m)"
    then show "replace_base cfg d2 = d2"
      using assms by (simp add: replace_base_def)
  }
  {
    assume nb: "backslash \<notin> set d3"
    show "(marker_search m d3 \<noteq> None \<or> endswith d3 (slash # m)) =
          (m \<in> set (tl (split_on slash d3)))"
    proof
      assume "marker_search m d3 \<noteq> None \<or> endswith d3 (slash # m)"
      then show "m \<in> set (tl (split_on slash d3))"
      proof
        assume "marker_search m d3 \<noteq> None"
        then obtain post' where "marker_search m d3 = Some post'" by auto
        from marker_search_sound [OF this] obtain pre' a' b' where
          d: "d3 = pre' @ a' # m @ b' # post'" and ab: "is_sep a'" "is_sep b'" by blast
        from d nb have "a' \<noteq> backslash" "b' \<noteq> backslash" by auto
        with ab have "a' = slash" "b' = slash" by (auto simp: is_sep_def)
        with d assms(5) show ?thesis by (simp add: segment_of_delimited(1))
      next
        assume "endswith d3 (slash # m)"
        then obtain p where "d3 = p @ slash # m" by (auto simp: endswith_iff)
        with assms(5) show ?thesis by (simp add: segment_of_delimited(2))
      qed
    next
      assume "m \<in> set (tl (split_on slash d3))"
      from split_on_tl_mem [OF this] obtain pre' post' where
        d: "d3 = pre' @ slash # m @ post'" and p: "post' = [] \<or> hd post' = slash" by blast
      show "marker_search m d3 \<noteq> None \<or> endswith d3 (slash # m)"
      proof (cases post')
        case Nil
        with d have "endswith d3 (slash # m)" by (auto simp: endswith_iff)
        then show ?thesis ..
      next
        case (Cons x xs)
        with p d have "d3 = pre' @ slash # m @ slash # xs" by simp
        then have "marker_search m d3 \<noteq> None"
          using marker_search_complete [of slash slash m pre' xs] by (simp add: is_sep_def)
        then show ?thesis ..
      qed
    qed
  }
qed

theorem replace_base_at_first_marker_witness:
  "replace_base example_rule ''/Volumes/RAW/Projects/2024/BMW/Footage/A-Cam'' =
     ''/Volumes/Proxies/Projects/2024/BMW/Footage/A-Cam'' \<and>
   replace_base example_rule ''/Volumes/RAW/Projects'' = ''/Volumes/Proxies/Projects'' \<and>
   replace_base example_rule ''/Volumes/RAW/MyProjects/2024'' = ''/Volumes/RAW/MyProjects/2024'' \<and>
   marker_search ''Projects'' ''/Volumes/RAW/Projects/2024'' \<noteq> None \<and>
   ''Projects'' \<in> set (tl (split_on slash ''/Volumes/RAW/Projects/2024''))"
proof -
  have c: "WORKFLOW_PROJECT_FOLDER example_rule = ''Projects''"
    "WORKFLOW_NEW_BASE example_rule = ''/Volumes/Proxies''"
    "''Projects'' \<noteq> []" "''/Volumes/Proxies'' \<noteq> []" "slash \<notin> set ''Projects''"
    by (simp_all add: example_rule_def default_config_def slash_def)
  have h1: "is_sep slash \<and> is_sep slash \<and>
      marker_search ''Projects'' (''/Volumes/RAW'' @ slash # ''Projects'') = None \<and>
      \<not> startswith ''2024/BMW/Footage/A-Cam'' [slash]"
    by code_simp
  have h2: "marker_search ''Projects'' ''/Volumes/RAW/Projects'' = None \<and>
      endswith ''/Volumes/RAW/Projects'' (slash # ''Projects'')"
    by code_simp
  have h3: "marker_search ''Projects'' ''/Volumes/RAW/MyProjects/2024'' = None \<and>
      \<not> endswith ''/Volumes/RAW/MyProjects/2024'' (slash # ''Projects'')"
    by code_simp
  have h4: "backslash \<notin> set ''/Volumes/RAW/Projects/2024''"
    by (simp add: backslash_def)
  have h5: "marker_search ''Projects'' ''/Volumes/RAW/Projects/2024'' \<noteq> None"
    by code_simp
  have e: "(if endswith ''/Volumes/Proxies'' [slash] then [] else [slash]) = ''/''"
    by code_simp
  note t = replace_base_at_first_marker
    [OF c, of slash slash "''/Volumes/RAW''" "''2024/BMW/Footage/A-Cam''"
       "''/Volumes/RAW/Projects''" "''/Volumes/RAW/MyProjects/2024''"
       "''/Volumes/RAW/Projects/2024''"]
  from t h1 have "replace_base example_rule
       (''/Volumes/RAW'' @ slash # ''Projects'' @ slash # ''2024/BMW/Footage/A-Cam'') =
     ''/Volumes/Proxies'' @ (if endswith ''/Volumes/Proxies'' [slash] then [] else [slash]) @
     ''Projects'' @ slash # ''2024/BMW/Footage/A-Cam''"
    by blast
  then have 1: "replace_base example_rule ''/Volumes/RAW/Projects/2024/BMW/Footage/A-Cam'' =
     ''/Volumes/Proxies/Projects/2024/BMW/Footage/A-Cam''"
    unfolding e by (simp add: slash_def)
  from t h2 have "replace_base example_rule ''/Volumes/RAW/Projects'' =
     ''/Volumes/Proxies'' @ (if endswith ''/Volumes/Proxies'' [slash] then [] else [slash]) @
     ''Projects''"
    by blast
  then have 2: "replace_base example_rule ''/Volumes/RAW/Projects'' = ''/Volumes/Proxies/Projects''"
    unfolding e by simp
  from t h3 have 3: "replace_base example_rule ''/Volumes/RAW/MyProjects/2024'' =
     ''/Volumes/RAW/MyProjects/2024''"
    by blast
  from t h4 h5 have 4: "''Projects'' \<in> set (tl (split_on slash ''/Volumes/RAW/Projects/2024''))"
    by blast
  from 1 2 3 4 h5 show ?thesis by blast
qed

text \<open>
  C4 as stated fails in two ways. The directory of \<^verbatim>\<open>Projects/A001.mov\<close> has the marker as
  its final (and only) segment and is not rebuilt, because no separator stands before
  the marker. And the directory \<^verbatim>\<open>/RAW/my\Projects\old\<close> has three segments, none of them
  the marker, yet it is rebuilt: the pattern takes the backslashes inside the folder name
  \<^verbatim>\<open>my\Projects\old\<close> for separators.
\<close>

theorem replace_base_whole_segment_counterexample:
  "last (split_on slash (dirname ''Projects/A001.mov'')) = ''Projects'' \<and>
   replace_base example_rule (dirname ''Projects/A001.mov'') = ''Projects'' \<and>
   split_on slash (''/RAW/my'' @ backslash # ''Projects'' @ backslash # ''old'') =
     [[], ''RAW'', ''my'' @ backslash # ''Projects'' @ backslash # ''old''] \<and>
   replace_base example_rule (''/RAW/my'' @ backslash # ''Projects'' @ backslash # ''old'') =
     ''/Volumes/Proxies/Projects/old''"
  by code_simp

subsection \<open>The naming policy\<close>

text \<open>
  C5. The destination is the target directory joined with the output file name, and the
  output file name is the stem of the source file, then \<^verbatim>\<open>_proxy\<close> exactly when the
  target directory and the original source directory have the same normal form, then a
  dot and the container. For a container without a slash that name is the final
  component of the returned path.
\<close>

theorem proxy_suffix_iff_same_directory:
  "(let target_dir = workflow_target_dir cfg src_file;
        same = (normpath target_dir = normpath (dirname src_file));
        name = path_stem src_file @ (if same then ''_proxy'' else []) @ ''.'' @ container;
        out = build_workflow_path cfg src_file container
    in out = path_join target_dir [name] \<and>
       endswith out name \<and>
       (slash \<notin> set container \<longrightarrow>
          path_basename out = name \<and>
          (path_basename out = path_stem src_file @ ''_proxy.'' @ container \<longleftrightarrow> same) \<and>
          (path_basename out = path_stem src_file @ ''.'' @ container \<longleftrightarrow> \<not> same)))"
proof -
  define target_dir where "target_dir = workflow_target_dir cfg src_file"
  define same where "same = (normpath target_dir = normpath (dirname src_file))"
  define name where
    "name = path_stem src_file @ (if same then ''_proxy'' else []) @ ''.'' @ container"
  define out where "out = build_workflow_path cfg src_file container"
  have out: "out = path_join target_dir [name]"
    by (simp add: out_def build_workflow_path_def Let_def name_def same_def target_dir_def)
  have e: "endswith out name" unfolding out by (rule endswith_path_join)
  have b: "path_basename out = name" if "slash \<notin> set container"
  proof -
    have "slash \<notin> set name"
      using that path_stem_no_slash [of src_file] by (simp add: name_def slash_def)
    then show ?thesis unfolding out by (rule path_basename_join)
  qed
  have i1: "name = path_stem src_file @ ''_proxy.'' @ container \<longleftrightarrow> same"
    by (simp add: name_def)
  have i2: "name = path_stem src_file @ ''.'' @ container \<longleftrightarrow> \<not> same"
    by (simp add: name_def)
  from out e b i1 i2 show ?thesis
    unfolding Let_def target_dir_def [symmetric] same_def [symmetric] name_def [symmetric]
      out_def [symmetric]
    by (simp add: target_dir_def same_def)
qed

theorem proxy_suffix_iff_same_directory_witness:
  "slash \<notin> set ''mp4'' \<and>
   path_basename (build_workflow_path
      (default_config\<lparr>WORKFLOW_REMOVE_LEVELS := 0, WORKFLOW_REPLACE_WITH := []\<rparr>)
      ''/Volumes/RAW/Footage/A001.mov'' ''mp4'') = ''A001_proxy.mp4'' \<and>
   path_basename (build_workflow_path default_config
      ''/Volumes/RAW/Footage/A001.mov'' ''mp4'') = ''A001.mp4'' \<and>
   dirname ''/a//b/f.mov'' = ''/a//b'' \<and>
   workflow_target_dir (default_config\<lparr>WORKFLOW_REPLACE_WITH := ''b''\<rparr>) ''/a//b/f.mov'' =
     ''/a/b'' \<and>
   path_basename (build_workflow_path (default_config\<lparr>WORKFLOW_REPLACE_WITH := ''b''\<rparr>)
      ''/a//b/f.mov'' ''mov'') = ''f_proxy.mov''"
proof -
  have c: "slash \<notin> set ''mp4''" by (simp add: slash_def)
  have c': "slash \<notin> set ''mov''" by (simp add: slash_def)
  have s': "path_stem ''/a//b/f.mov'' = ''f''" by code_simp
  have d1: "dirname ''/a//b/f.mov'' = ''/a//b''" by code_simp
  have d2: "workflow_target_dir (default_config\<lparr>WORKFLOW_REPLACE_WITH := ''b''\<rparr>)
      ''/a//b/f.mov'' = ''/a/b''"
    by code_simp
  have 3: "(normpath (workflow_target_dir (default_config\<lparr>WORKFLOW_REPLACE_WITH := ''b''\<rparr>)
              ''/a//b/f.mov'') =
           normpath (dirname ''/a//b/f.mov'')) = True"
    by code_simp
  from proxy_suffix_iff_same_directory
    [of "default_config\<lparr>WORKFLOW_REPLACE_WITH := ''b''\<rparr>" "''/a//b/f.mov''" "''mov''",
     unfolded Let_def] c'
  have "path_basename (build_workflow_path (default_config\<lparr>WORKFLOW_REPLACE_WITH := ''b''\<rparr>)
      ''/a//b/f.mov'' ''mov'') =
    path_stem ''/a//b/f.mov'' @
    (if normpath (workflow_target_dir (default_config\<lparr>WORKFLOW_REPLACE_WITH := ''b''\<rparr>)
              ''/a//b/f.mov'') =
           normpath (dirname ''/a//b/f.mov'') then ''_proxy'' else []) @
    ''.'' @ ''mov''"
    by blast
  then have n: "path_basename (build_workflow_path
      (default_config\<lparr>WORKFLOW_REPLACE_WITH := ''b''\<rparr>) ''/a//b/f.mov'' ''mov'') =
      ''f_proxy.mov''"
    unfolding 3 s' by simp
  have s: "path_stem ''/Volumes/RAW/Footage/A001.mov'' = ''A001''" by code_simp
  have 1: "(normpath (workflow_target_dir
              (default_config\<lparr>WORKFLOW_REMOVE_LEVELS := 0, WORKFLOW_REPLACE_WITH := []\<rparr>)
              ''/Volumes/RAW/Footage/A001.mov'') =
           normpath (dirname ''/Volumes/RAW/Footage/A001.mov'')) = True"
    by code_simp
  have 2: "(normpath (workflow_target_dir default_config ''/Volumes/RAW/Footage/A001.mov'') =
           normpath (dirname ''/Volumes/RAW/Footage/A001.mov'')) = False"
    by code_simp
  from proxy_suffix_iff_same_directory
    [of "default_config\<lparr>WORKFLOW_REMOVE_LEVELS := 0, WORKFLOW_REPLACE_WITH := []\<rparr>"
        "''/Volumes/RAW/Footage/A001.mov''" "''mp4''", unfolded Let_def] c
  have "path_basename (build_workflow_path
      (default_config\<lparr>WORKFLOW_REMOVE_LEVELS := 0, WORKFLOW_REPLACE_WITH := []\<rparr>)
      ''/Volumes/RAW/Footage/A001.mov'' ''mp4'') =
    path_stem ''/Volumes/RAW/Footage/A001.mov'' @
    (if normpath (workflow_target_dir
              (default_config\<lparr>WORKFLOW_REMOVE_LEVELS := 0, WORKFLOW_REPLACE_WITH := []\<rparr>)
              ''/Volumes/RAW/Footage/A001.mov'') =
           normpath (dirname ''/Volumes/RAW/Footage/A001.mov'') then ''_proxy'' else []) @
    ''.'' @ ''mp4''"
    by blast
  then have a: "path_basename (build_workflow_path
      (default_config\<lparr>WORKFLOW_REMOVE_LEVELS := 0, WORKFLOW_REPLACE_WITH := []\<rparr>)
      ''/Volumes/RAW/Footage/A001.mov'' ''mp4'') = ''A001_proxy.mp4''"
    unfolding 1 s by simp
  from proxy_suffix_iff_same_directory
    [of default_config "''/Volumes/RAW/Footage/A001.mov''" "''mp4''", unfolded Let_def] c
  have "path_basename (build_workflow_path default_config
      ''/Volumes/RAW/Footage/A001.mov'' ''mp4'') =
    path_stem ''/Volumes/RAW/Footage/A001.mov'' @
    (if normpath (workflow_target_dir default_config ''/Volumes/RAW/Footage/A001.mov'') =
           normpath (dirname ''/Volumes/RAW/Footage/A001.mov'') then ''_proxy'' else []) @
    ''.'' @ ''mp4''"
    by blast
  then have b: "path_basename (build_workflow_path default_config
      ''/Volumes/RAW/Footage/A001.mov'' ''mp4'') = ''A001.mp4''"
    unfolding 2 s by simp
  from c a b d1 d2 n show ?thesis by blast
qed

text \<open>
  C6. The scenario of the specification: with the marker \<^verbatim>\<open>Projects\<close>, the new base
  \<^verbatim>\<open>/Volumes/Proxies\<close>, one level removed and \<^verbatim>\<open>proxies\<close> appended, the source
  \<^verbatim>\<open>/Volumes/RAW/Projects/2024/BMW/Footage/A-Cam/A001.mov\<close> with the container \<^verbatim>\<open>mp4\<close> is
  mapped to \<^verbatim>\<open>/Volumes/Proxies/Projects/2024/BMW/Footage/proxies/A001.mp4\<close>.
\<close>

theorem scenario_bmw_footage:
  "WORKFLOW_PROJECT_FOLDER example_rule = ''Projects'' \<and>
   WORKFLOW_NEW_BASE example_rule = ''/Volumes/Proxies'' \<and>
   WORKFLOW_REMOVE_LEVELS example_rule = 1 \<and>
   WORKFLOW_REPLACE_WITH example_rule = ''proxies'' \<and>
   build_workflow_path example_rule
     ''/Volumes/RAW/Projects/2024/BMW/Footage/A-Cam/A001.mov'' ''mp4'' =
     ''/Volumes/Proxies/Projects/2024/BMW/Footage/proxies/A001.mp4''"
  by code_simp

subsection \<open>The encode recipe\<close>

text \<open>
  C8. For a codec that is none of \<^verbatim>\<open>h264\<close>, \<^verbatim>\<open>prores\<close> and \<^verbatim>\<open>dnxhd\<close> the command is the
  one written out below: the \<^verbatim>\<open>libopenh264\<close> encoder at the configured video bitrate. It
  is the command of the codec \<^verbatim>\<open>h264\<close> without the advanced rate control, whatever the
  profile, and it does not change with the capability flag nor with the CRF, the preset
  or the tune.
\<close>

theorem unknown_codec_constrained_bitrate:
  "codec \<notin> {''h264'', ''prores'', ''dnxhd''} \<Longrightarrow>
     generate_proxy_cmd g input_file output_file scale vbitrate abitrate codec codec_profile
         container crf preset tune =
       [FFMPEG g, ''-i'', input_file, ''-vf'', ''scale='' @ scale @ '':-2'',
        ''-pix_fmt'', ''yuv420p'', ''-c:v'', ''libopenh264'', ''-b:v'', vbitrate,
        ''-c:a'', ''aac'', ''-b:a'', abitrate, ''-movflags'', ''+faststart'',
        ''-f'', container, ''-loglevel'', ''error'', ''-y'', output_file] \<and>
     generate_proxy_cmd g input_file output_file scale vbitrate abitrate codec codec_profile
         container crf preset tune =
       generate_proxy_cmd (g\<lparr>USE_LIBX264 := False\<rparr>) input_file output_file scale vbitrate
         abitrate ''h264'' codec_profile' container crf' preset' tune' \<and>
     generate_proxy_cmd (g\<lparr>USE_LIBX264 := flag\<rparr>) input_file output_file scale vbitrate
         abitrate codec codec_profile container crf' preset' tune' =
       generate_proxy_cmd g input_file output_file scale vbitrate abitrate codec codec_profile
         container crf preset tune"
  by (simp add: generate_proxy_cmd_def)

theorem unknown_codec_constrained_bitrate_witness:
  "''hevc'' \<notin> {''h264'', ''prores'', ''dnxhd''} \<and>
   generate_proxy_cmd \<lparr>FFMPEG = ''ffmpeg'', USE_LIBX264 = True\<rparr> ''in.mov'' ''out.mp4''
       ''320'' ''256k'' ''64k'' ''hevc'' [] ''mp4'' ''28'' ''veryfast'' ''fastdecode'' =
     [''ffmpeg'', ''-i'', ''in.mov'', ''-vf'', ''scale=320:-2'',
      ''-pix_fmt'', ''yuv420p'', ''-c:v'', ''libopenh264'', ''-b:v'', ''256k'',
      ''-c:a'', ''aac'', ''-b:a'', ''64k'', ''-movflags'', ''+faststart'',
      ''-f'', ''mp4'', ''-loglevel'', ''error'', ''-y'', ''out.mp4'']"
proof -
  have h: "''hevc'' \<notin> {''h264'', ''prores'', ''dnxhd''}" by simp
  from unknown_codec_constrained_bitrate
    [OF h, of "\<lparr>FFMPEG = ''ffmpeg'', USE_LIBX264 = True\<rparr>" "''in.mov''" "''out.mp4''"
       "''320''" "''256k''" "''64k''" "[]" "''mp4''" "''28''" "''veryfast''" "''fastdecode''"]
    h
  show ?thesis by simp
qed

section \<open>Properties of a run\<close>

subsection \<open>Traces and external calls\<close>

lemma transcodes_append: "transcodes (xs @ ys) = transcodes xs @ transcodes ys"
  by (induction xs rule: transcodes.induct) simp_all


lemma encoded_append: "encoded enc (xs @ ys) = encoded (encoded enc xs) ys"
  by (induction enc xs rule: encoded.induct) simp_all


lemma trace_emit: "trace (emit ev w) = trace w @ [ev]"
  by (simp add: emit_def)

lemma files_emit: "files (emit ev w) = files w"
  by (simp add: emit_def)

lemma run_trace:
  "trace (snd (run e site cmd w)) = trace w @ [Spawn site cmd (exit_status e cmd (files w))]"
  by (simp add: run_def exit_status_def trace_emit split: prod.splits)

lemma run_fst: "fst (run e site cmd w) = fst (subprocess_run e cmd (files w))"
  by (simp add: run_def split: prod.splits)

subsection \<open>Temp paths\<close>


lemma dirname_nonempty:
  assumes "slash \<in> set p"
  shows "dirname p \<noteq> []"
proof -
  define head where "head = take (rfind1 slash p) p"
  have h: "head = rev (dropWhile (\<lambda>x. x \<noteq> slash) (rev p))"
    unfolding head_def by (rule take_rfind1)
  from assms have "\<exists>x \<in> set (rev p). \<not> x \<noteq> slash" by simp
  then have "dropWhile (\<lambda>x. x \<noteq> slash) (rev p) \<noteq> []"
    by (simp add: dropWhile_eq_Nil_conv)
  then have ne: "head \<noteq> []" by (simp add: h)
  have dn: "dirname p =
      (if head \<noteq> [] \<and> head \<noteq> replicate (length head) slash
       then rstrip slash head else head)"
    unfolding dirname_def Let_def head_def by (rule refl)
  show ?thesis
  proof (cases "head \<noteq> [] \<and> head \<noteq> replicate (length head) slash")
    case False
    have "dirname p = head" unfolding dn using False by (rule if_not_P)
    with ne show ?thesis by simp
  next
    case True
    have d: "dirname p = rstrip slash head" unfolding dn using True by (rule if_P)
    from True have "\<exists>x \<in> set head. x \<noteq> slash"
      using replicate_eqI [of head "length head" slash] by blast
    then have "\<exists>x \<in> set (rev head). \<not> x = slash" by simp
    then have "dropWhile (\<lambda>x. x = slash) (rev head) \<noteq> []"
      by (simp add: dropWhile_eq_Nil_conv)
    then show ?thesis by (simp add: d rstrip_def)
  qed
qed

lemma path_join_has_slash: "t \<noteq> [] \<Longrightarrow> slash \<in> set (path_join t [n])"
proof -
  assume t: "t \<noteq> []"
  show ?thesis
  proof (cases "startswith n [slash]")
    case True
    then have "n \<noteq> []" "hd n = slash" by (simp_all add: startswith_slash)
    then have "slash \<in> set n" using hd_in_set by fastforce
    with True show ?thesis by (simp add: path_join_single)
  next
    case False
    show ?thesis
    proof (cases "endswith t [slash]")
      case True
      then have "last t = slash" by (simp add: endswith_slash)
      then have "slash \<in> set t" using t last_in_set by fastforce
      with False True show ?thesis by (simp add: path_join_single)
    next
      case no: False
      with False t show ?thesis by (simp add: path_join_single)
    qed
  qed
qed

lemma temp_dir_nonempty:
  assumes "AW_TEMP e \<noteq> []"
  shows "dirname (preview_path e cfg i) \<noteq> []" and "dirname (workflow_path e cfg i) \<noteq> []"
  using assms by (simp_all add: preview_path_def workflow_path_def dirname_nonempty
      path_join_has_slash)

lemma path_join_inj:
  "\<not> startswith a [slash] \<Longrightarrow> \<not> startswith b [slash] \<Longrightarrow>
     path_join t [a] = path_join t [b] \<Longrightarrow> a = b"
  by (auto simp: path_join_single split: if_splits)

lemma tier_name_not_abs: "\<not> startswith (path_stem i @ CHR ''_'' # rest) [slash]"
proof (cases "path_stem i")
  case Nil
  then show ?thesis by (simp add: startswith_def slash_def)
next
  case (Cons c cs)
  with path_stem_no_slash [of i] have "c \<noteq> slash" by auto
  with Cons show ?thesis by (simp add: startswith_def)
qed






lemma preview_not_workflow: "preview_path e cfg i \<noteq> workflow_path e cfg' i"
proof
  assume eq: "preview_path e cfg i = workflow_path e cfg' i"
  have "\<not> startswith (path_stem i @ ''_preview.'' @
      get_container (PREVIEW_CODEC cfg) (PREVIEW_CONTAINER cfg)) [slash]"
    using tier_name_not_abs by simp
  moreover have "\<not> startswith (path_stem i @ ''_workflow.'' @
      get_container (WORKFLOW_CODEC cfg') (WORKFLOW_CONTAINER cfg')) [slash]"
    using tier_name_not_abs by simp
  ultimately have "path_stem i @ ''_preview.'' @
        get_container (PREVIEW_CODEC cfg) (PREVIEW_CONTAINER cfg) =
      path_stem i @ ''_workflow.'' @
        get_container (WORKFLOW_CODEC cfg') (WORKFLOW_CONTAINER cfg')"
    using eq unfolding preview_path_def workflow_path_def by (rule path_join_inj)
  then show False by simp
qed

lemma tier_path_preview:
  "tier_path (AW_TEMP e) i ''preview'' (get_container (PREVIEW_CODEC cfg) (PREVIEW_CONTAINER cfg)) =
     preview_path e cfg i"
  by (simp add: tier_path_def preview_path_def)

lemma tier_path_workflow:
  "tier_path (AW_TEMP e) i ''workflow'' (get_container (WORKFLOW_CODEC cfg) (WORKFLOW_CONTAINER cfg)) =
     workflow_path e cfg i"
  by (simp add: tier_path_def workflow_path_def)

lemma last_generate_proxy_cmd:
  "last (generate_proxy_cmd g i outp sc vb ab co cp ct crf pr tu) = outp"
  by (simp add: generate_proxy_cmd_def)

lemma last_preview_cmd: "last (preview_cmd e cfg g i) = preview_path e cfg i"
  by (simp add: preview_cmd_def last_generate_proxy_cmd)

lemma last_workflow_cmd: "last (workflow_cmd e cfg g i) = workflow_path e cfg i"
  by (simp add: workflow_cmd_def last_generate_proxy_cmd)

subsection \<open>The parts of \<^verbatim>\<open>main\<close>: transcodes\<close>

lemma init_ffmpeg_transcodes:
  "transcodes (trace (snd (init_ffmpeg e cfg w))) = transcodes (trace w)"
  by (simp add: init_ffmpeg_def Let_def case_prod_unfold run_trace transcodes_append
           split: option.splits)

lemma generate_proxy_transcodes:
  "transcodes (trace (snd (generate_proxy e g i outp sc vb ab pt co cp ct crf pr tu w))) =
     transcodes (trace w) @
     (if dirname outp = [] then []
      else [(generate_proxy_cmd g i outp sc vb ab co cp ct crf pr tu,
             exit_status e (generate_proxy_cmd g i outp sc vb ab co cp ct crf pr tu) (files w))])"
  by (simp add: generate_proxy_def makedirs_def Let_def case_prod_unfold run_trace run_fst
        trace_emit files_emit transcodes_append split: option.splits)

lemma main_preview_transcodes:
  "transcodes (trace (snd (main_preview e cfg g i w))) =
     transcodes (trace w) @
     (if need_preview cfg \<and> dirname (preview_path e cfg i) \<noteq> []
      then [(preview_cmd e cfg g i, exit_status e (preview_cmd e cfg g i) (files w))]
      else [])"
  by (simp add: main_preview_def Let_def case_prod_unfold generate_proxy_transcodes
        preview_cmd_def preview_path_def split: sum.splits)

lemma main_workflow_transcodes:
  "transcodes (trace (snd (main_workflow e cfg g i w))) =
     transcodes (trace w) @
     (if need_workflow cfg \<and> dirname (workflow_path e cfg i) \<noteq> []
      then [(workflow_cmd e cfg g i, exit_status e (workflow_cmd e cfg g i) (files w))]
      else [])"
  by (simp add: main_workflow_def Let_def case_prod_unfold generate_proxy_transcodes
        workflow_cmd_def workflow_path_def split: sum.splits)

lemma main_store_transcodes:
  "transcodes (trace (snd (main_store cfg i p q w))) = transcodes (trace w)"
  by (simp add: main_store_def makedirs_def copy2_def Let_def case_prod_unfold trace_emit
        transcodes_append split: option.splits)

lemma main_return_transcodes:
  "transcodes (trace (snd (main_return e cfg g p q w))) = transcodes (trace w)"
  by (simp add: main_return_def Let_def case_prod_unfold run_trace transcodes_append
        split: option.splits)

lemma cleanup_transcodes:
  "transcodes (trace (cleanup rp w x)) = transcodes (trace w)"
  by (simp add: cleanup_def remove_file_def trace_emit transcodes_append)

lemma main_finish_transcodes:
  "transcodes (trace (snd (main_finish p q rp w))) = transcodes (trace w)"
  by (simp add: main_finish_def trace_emit transcodes_append cleanup_transcodes)

lemma main_tail_transcodes:
  "transcodes (trace (snd
     (case main_store cfg i p q w2 of
        (Some x, w3) \<Rightarrow> (Uncaught x, w3)
      | (None, w3) \<Rightarrow>
          (case main_return e cfg g p q w3 of
             (Inl x, w4) \<Rightarrow> (Uncaught x, w4)
           | (Inr return_path, w4) \<Rightarrow> main_finish p q return_path w4)))) =
   transcodes (trace w2)"
  by (simp add: case_prod_unfold main_store_transcodes main_return_transcodes
        main_finish_transcodes split: option.splits sum.splits)

lemma main_preview_fst:
  "fst (main_preview e cfg g i w) =
     (if need_preview cfg then
        (if dirname (preview_path e cfg i) = [] then Inl (Uncaught (FileNotFoundError []))
         else (case fst (subprocess_run e (preview_cmd e cfg g i) (files w)) of
                 None \<Rightarrow> Inl (Uncaught OSError)
               | Some result \<Rightarrow>
                   if returncode result \<noteq> 0
                   then Inl (Exit1 ''Failed to generate preview quality proxy'')
                   else Inr (preview_path e cfg i)))
      else Inr [])"
  by (simp add: main_preview_def generate_proxy_def makedirs_def Let_def case_prod_unfold
        run_fst files_emit preview_cmd_def preview_path_def split: option.splits)

lemma main_workflow_fst:
  "fst (main_workflow e cfg g i w) =
     (if need_workflow cfg then
        (if dirname (workflow_path e cfg i) = [] then Inl (Uncaught (FileNotFoundError []))
         else (case fst (subprocess_run e (workflow_cmd e cfg g i) (files w)) of
                 None \<Rightarrow> Inl (Uncaught OSError)
               | Some result \<Rightarrow>
                   if returncode result \<noteq> 0
                   then Inl (Exit1 ''Failed to generate workflow quality proxy'')
                   else Inr (workflow_path e cfg i)))
      else Inr [])"
  by (simp add: main_workflow_def generate_proxy_def makedirs_def Let_def case_prod_unfold
        run_fst files_emit workflow_cmd_def workflow_path_def split: option.splits)

lemma main_preview_Inr:
  "fst (main_preview e cfg g i w) = Inr p \<longleftrightarrow>
     (if need_preview cfg
      then p = preview_path e cfg i \<and> dirname (preview_path e cfg i) \<noteq> [] \<and>
           exit_status e (preview_cmd e cfg g i) (files w) = Some 0
      else p = [])"
  by (auto simp: main_preview_fst exit_status_def split: option.splits)

lemma main_workflow_Inr:
  "fst (main_workflow e cfg g i w) = Inr p \<longleftrightarrow>
     (if need_workflow cfg
      then p = workflow_path e cfg i \<and> dirname (workflow_path e cfg i) \<noteq> [] \<and>
           exit_status e (workflow_cmd e cfg g i) (files w) = Some 0
      else p = [])"
  by (auto simp: main_workflow_fst exit_status_def split: option.splits)

lemma main_preview_Inl:
  "fst (main_preview e cfg g i w) = Inl out \<Longrightarrow>
     out \<noteq> Exit0 \<and> need_preview cfg \<and>
     (dirname (preview_path e cfg i) \<noteq> [] \<longrightarrow>
        exit_status e (preview_cmd e cfg g i) (files w) \<noteq> Some 0)"
  by (auto simp: main_preview_fst exit_status_def split: option.splits if_splits)

lemma main_workflow_Inl:
  "fst (main_workflow e cfg g i w) = Inl out \<Longrightarrow>
     out \<noteq> Exit0 \<and> need_workflow cfg \<and>
     (dirname (workflow_path e cfg i) \<noteq> [] \<longrightarrow>
        exit_status e (workflow_cmd e cfg g i) (files w) \<noteq> Some 0)"
  by (auto simp: main_workflow_fst exit_status_def split: option.splits if_splits)


lemma main_transcodes:
  "transcodes (trace (snd (main e cfg argv (start fs)))) =
     (if \<not> input_accepted e cfg argv fs then []
      else
        (let g = fst (init_ffmpeg e cfg (start fs));
             w0 = snd (init_ffmpeg e cfg (start fs));
             i = argv ! 1;
             rp = exit_status e (preview_cmd e cfg g i) (files w0);
             w1 = snd (main_preview e cfg g i w0)
         in (if need_preview cfg \<and> dirname (preview_path e cfg i) \<noteq> []
             then [(preview_cmd e cfg g i, rp)] else []) @
            (if need_workflow cfg \<and> dirname (workflow_path e cfg i) \<noteq> [] \<and>
                (need_preview cfg \<longrightarrow> dirname (preview_path e cfg i) \<noteq> [] \<and> rp = Some 0)
             then [(workflow_cmd e cfg g i, exit_status e (workflow_cmd e cfg g i) (files w1))]
             else [])))"
proof -
  define g where "g = fst (init_ffmpeg e cfg (start fs))"
  define w0 where "w0 = snd (init_ffmpeg e cfg (start fs))"
  define i where "i = argv ! 1"
  define rp where "rp = exit_status e (preview_cmd e cfg g i) (files w0)"
  define w1 where "w1 = snd (main_preview e cfg g i w0)"
  define w2 where "w2 = snd (main_workflow e cfg g i w1)"
  define tP where "tP = (if need_preview cfg \<and> dirname (preview_path e cfg i) \<noteq> []
             then [(preview_cmd e cfg g i, rp)] else [])"
  define tW where "tW = (if need_workflow cfg \<and> dirname (workflow_path e cfg i) \<noteq> []
             then [(workflow_cmd e cfg g i, exit_status e (workflow_cmd e cfg g i) (files w1))]
             else [])"
  have t0: "transcodes (trace w0) = []"
    by (simp add: w0_def init_ffmpeg_transcodes start_def)
  have t1: "transcodes (trace w1) = tP"
    by (simp add: w1_def main_preview_transcodes t0 tP_def rp_def)
  have t2: "transcodes (trace w2) = tP @ tW"
    by (simp add: w2_def main_workflow_transcodes t1 tW_def)
  show ?thesis
  proof (cases "input_accepted e cfg argv fs")
    case False
    then have "transcodes (trace (snd (main e cfg argv (start fs)))) = []"
      using t0 by (auto simp: main_def input_accepted_def Let_def case_prod_unfold w0_def start_def)
    with False show ?thesis by simp
  next
    case True
    then have m: "main e cfg argv (start fs) =
        (case main_preview e cfg g i w0 of
           (Inl out, w1) \<Rightarrow> (out, w1)
         | (Inr preview_proxy_path, w1) \<Rightarrow>
          (case main_workflow e cfg g i w1 of
             (Inl out, w2) \<Rightarrow> (out, w2)
           | (Inr workflow_proxy_path, w2) \<Rightarrow>
          (case main_store cfg i preview_proxy_path workflow_proxy_path w2 of
             (Some x, w3) \<Rightarrow> (Uncaught x, w3)
           | (None, w3) \<Rightarrow>
          (case main_return e cfg g preview_proxy_path workflow_proxy_path w3 of
             (Inl x, w4) \<Rightarrow> (Uncaught x, w4)
           | (Inr return_path, w4) \<Rightarrow>
               main_finish preview_proxy_path workflow_proxy_path return_path w4))))"
      unfolding g_def w0_def i_def
      by (simp add: main_def input_accepted_def Let_def case_prod_unfold del: One_nat_def)
    have goal: "transcodes (trace (snd (main e cfg argv (start fs)))) =
        tP @ (if need_preview cfg \<longrightarrow> dirname (preview_path e cfg i) \<noteq> [] \<and> rp = Some 0
              then tW else [])"
    proof (cases "fst (main_preview e cfg g i w0)")
      case (Inl out)
      then have "snd (main e cfg argv (start fs)) = w1"
        unfolding m by (simp add: case_prod_unfold w1_def)
      moreover from Inl have "need_preview cfg"
        and "dirname (preview_path e cfg i) \<noteq> [] \<longrightarrow> rp \<noteq> Some 0"
        using main_preview_Inl [of e cfg g i w0 out] by (simp_all add: rp_def)
      ultimately show ?thesis using t1 by auto
    next
      case (Inr p)
      then have ok: "need_preview cfg \<longrightarrow> dirname (preview_path e cfg i) \<noteq> [] \<and> rp = Some 0"
        by (simp add: main_preview_Inr rp_def split: if_splits)
      show ?thesis
      proof (cases "fst (main_workflow e cfg g i w1)")
        case (Inl out)
        with Inr have "snd (main e cfg argv (start fs)) = w2"
          unfolding m by (simp add: case_prod_unfold w1_def w2_def)
        with ok t2 show ?thesis by simp
      next
        case q: (Inr q)
        with Inr have "transcodes (trace (snd (main e cfg argv (start fs)))) =
            transcodes (trace w2)"
          unfolding m
          by (simp add: case_prod_beta [of _ "main_preview e cfg g i w0"]
                case_prod_beta [of _ "main_workflow e cfg g i w1"]
                w1_def [symmetric] w2_def [symmetric] main_tail_transcodes)
        with ok t2 show ?thesis by simp
      qed
    qed
    from True goal show ?thesis
      unfolding Let_def g_def [symmetric] w0_def [symmetric] i_def [symmetric]
        rp_def [symmetric] w1_def [symmetric]
      by (auto simp: tP_def tW_def)
  qed
qed

lemma main_artifacts:
  "artifacts (trace (snd (main e cfg argv (start fs)))) =
     (if \<not> input_accepted e cfg argv fs then []
      else
        (if need_preview cfg \<and> dirname (preview_path e cfg (argv ! 1)) \<noteq> []
         then [preview_path e cfg (argv ! 1)] else []) @
        (if need_workflow cfg \<and> dirname (workflow_path e cfg (argv ! 1)) \<noteq> [] \<and>
            (need_preview cfg \<longrightarrow> dirname (preview_path e cfg (argv ! 1)) \<noteq> [] \<and>
               exit_status e (preview_cmd e cfg (fst (init_ffmpeg e cfg (start fs))) (argv ! 1))
                 (files (snd (init_ffmpeg e cfg (start fs)))) = Some 0)
         then [workflow_path e cfg (argv ! 1)] else []))"
  by (simp add: artifacts_def main_transcodes Let_def last_preview_cmd last_workflow_cmd)

subsection \<open>The parts of \<^verbatim>\<open>main\<close>: output, cleanup and copies\<close>










lemma enc_init: "encoded enc (trace (snd (init_ffmpeg e cfg w))) = encoded enc (trace w)"
  by (simp add: init_ffmpeg_def Let_def case_prod_unfold run_trace encoded_append
        split: option.splits)











subsection \<open>The ways a run can end\<close>

lemma main_cases:
  fixes e cfg argv fs
  defines "g \<equiv> fst (init_ffmpeg e cfg (start fs))"
    and "w0 \<equiv> snd (init_ffmpeg e cfg (start fs))"
    and "i \<equiv> argv ! 1"
  defines "w1 \<equiv> snd (main_preview e cfg g i w0)"
  defines "w2 \<equiv> snd (main_workflow e cfg g i w1)"
  obtains
    (rejected) m where "\<not> input_accepted e cfg argv fs"
      and "fst (main e cfg argv (start fs)) = Exit1 m"
      and "snd (main e cfg argv (start fs)) = start fs \<or> snd (main e cfg argv (start fs)) = w0"
  | (preview_failed) out where "input_accepted e cfg argv fs"
      and "fst (main_preview e cfg g i w0) = Inl out"
      and "main e cfg argv (start fs) = (out, w1)"
  | (workflow_failed) p out where "input_accepted e cfg argv fs"
      and "fst (main_preview e cfg g i w0) = Inr p"
      and "fst (main_workflow e cfg g i w1) = Inl out"
      and "main e cfg argv (start fs) = (out, w2)"
  | (store_failed) p q x where "input_accepted e cfg argv fs"
      and "fst (main_preview e cfg g i w0) = Inr p"
      and "fst (main_workflow e cfg g i w1) = Inr q"
      and "fst (main_store cfg i p q w2) = Some x"
      and "main e cfg argv (start fs) = (Uncaught x, snd (main_store cfg i p q w2))"
  | (return_failed) p q x where "input_accepted e cfg argv fs"
      and "fst (main_preview e cfg g i w0) = Inr p"
      and "fst (main_workflow e cfg g i w1) = Inr q"
      and "fst (main_store cfg i p q w2) = None"
      and "fst (main_return e cfg g p q (snd (main_store cfg i p q w2))) = Inl x"
      and "main e cfg argv (start fs) =
             (Uncaught x, snd (main_return e cfg g p q (snd (main_store cfg i p q w2))))"
  | (finished) p q rp where "input_accepted e cfg argv fs"
      and "fst (main_preview e cfg g i w0) = Inr p"
      and "fst (main_workflow e cfg g i w1) = Inr q"
      and "fst (main_store cfg i p q w2) = None"
      and "fst (main_return e cfg g p q (snd (main_store cfg i p q w2))) = Inr rp"
      and "main e cfg argv (start fs) =
             main_finish p q rp (snd (main_return e cfg g p q (snd (main_store cfg i p q w2))))"
proof (cases "input_accepted e cfg argv fs")
  case False
  then have "\<exists>m. fst (main e cfg argv (start fs)) = Exit1 m"
    and "snd (main e cfg argv (start fs)) = start fs \<or> snd (main e cfg argv (start fs)) = w0"
    by (auto simp: main_def input_accepted_def Let_def case_prod_unfold w0_def)
  with False show ?thesis using rejected by blast
next
  case True
  then have m: "main e cfg argv (start fs) =
      (case main_preview e cfg g i w0 of
         (Inl out, w1) \<Rightarrow> (out, w1)
       | (Inr preview_proxy_path, w1) \<Rightarrow>
        (case main_workflow e cfg g i w1 of
           (Inl out, w2) \<Rightarrow> (out, w2)
         | (Inr workflow_proxy_path, w2) \<Rightarrow>
        (case main_store cfg i preview_proxy_path workflow_proxy_path w2 of
           (Some x, w3) \<Rightarrow> (Uncaught x, w3)
         | (None, w3) \<Rightarrow>
        (case main_return e cfg g preview_proxy_path workflow_proxy_path w3 of
           (Inl x, w4) \<Rightarrow> (Uncaught x, w4)
         | (Inr return_path, w4) \<Rightarrow>
             main_finish preview_proxy_path workflow_proxy_path return_path w4))))"
    unfolding g_def w0_def i_def
    by (simp add: main_def input_accepted_def Let_def case_prod_unfold del: One_nat_def)
  show ?thesis
  proof (cases "fst (main_preview e cfg g i w0)")
    case (Inl out)
    then have "main e cfg argv (start fs) = (out, w1)"
      unfolding m by (simp add: case_prod_beta w1_def)
    with True Inl show ?thesis by (rule preview_failed)
  next
    case p: (Inr p)
    show ?thesis
    proof (cases "fst (main_workflow e cfg g i w1)")
      case (Inl out)
      with p have "main e cfg argv (start fs) = (out, w2)"
        unfolding m by (simp add: case_prod_beta w1_def w2_def)
      with True p Inl show ?thesis by (rule workflow_failed)
    next
      case q: (Inr q)
      show ?thesis
      proof (cases "fst (main_store cfg i p q w2)")
        case (Some x)
        with p q have "main e cfg argv (start fs) = (Uncaught x, snd (main_store cfg i p q w2))"
          unfolding m by (simp add: case_prod_beta w1_def w2_def)
        with True p q Some show ?thesis by (rule store_failed)
      next
        case None
        show ?thesis
        proof (cases "fst (main_return e cfg g p q (snd (main_store cfg i p q w2)))")
          case (Inl x)
          with p q None have "main e cfg argv (start fs) =
             (Uncaught x, snd (main_return e cfg g p q (snd (main_store cfg i p q w2))))"
            unfolding m by (simp add: case_prod_beta w1_def w2_def)
          with True p q None Inl show ?thesis by (rule return_failed)
        next
          case (Inr rp)
          with p q None have "main e cfg argv (start fs) =
             main_finish p q rp (snd (main_return e cfg g p q (snd (main_store cfg i p q w2))))"
            unfolding m by (simp add: case_prod_beta w1_def w2_def)
          with True p q None Inr show ?thesis by (rule finished)
        qed
      qed
    qed
  qed
qed

lemma successful_run_encodes:
  assumes "fst (main e cfg argv (start fs)) = Exit0"
  shows "input_accepted e cfg argv fs"
    and "need_preview cfg \<longrightarrow> dirname (preview_path e cfg (argv ! 1)) \<noteq> [] \<and>
           exit_status e (preview_cmd e cfg (fst (init_ffmpeg e cfg (start fs))) (argv ! 1))
             (files (snd (init_ffmpeg e cfg (start fs)))) = Some 0"
    and "need_workflow cfg \<longrightarrow> dirname (workflow_path e cfg (argv ! 1)) \<noteq> []"
proof -
  have "input_accepted e cfg argv fs \<and>
    (need_preview cfg \<longrightarrow> dirname (preview_path e cfg (argv ! 1)) \<noteq> [] \<and>
           exit_status e (preview_cmd e cfg (fst (init_ffmpeg e cfg (start fs))) (argv ! 1))
             (files (snd (init_ffmpeg e cfg (start fs)))) = Some 0) \<and>
    (need_workflow cfg \<longrightarrow> dirname (workflow_path e cfg (argv ! 1)) \<noteq> [])"
  proof (cases rule: main_cases [of e cfg argv fs])
    case (rejected m)
    with assms show ?thesis by simp
  next
    case (preview_failed out)
    with assms main_preview_Inl [OF preview_failed(2)] show ?thesis by simp
  next
    case (workflow_failed p out)
    with assms main_workflow_Inl [OF workflow_failed(3)] show ?thesis by simp
  next
    case (store_failed p q x)
    with assms show ?thesis by simp
  next
    case (return_failed p q x)
    with assms show ?thesis by simp
  next
    case (finished p q rp)
    from finished(1,2,3) show ?thesis
      by (auto simp: main_preview_Inr main_workflow_Inr split: if_splits)
  qed
  then show "input_accepted e cfg argv fs"
    and "need_preview cfg \<longrightarrow> dirname (preview_path e cfg (argv ! 1)) \<noteq> [] \<and>
           exit_status e (preview_cmd e cfg (fst (init_ffmpeg e cfg (start fs))) (argv ! 1))
             (files (snd (init_ffmpeg e cfg (start fs)))) = Some 0"
    and "need_workflow cfg \<longrightarrow> dirname (workflow_path e cfg (argv ! 1)) \<noteq> []"
    by blast+
qed


lemma transcoded_tiers_main:
  "transcoded_tiers e cfg (argv ! 1) (trace (snd (main e cfg argv (start fs)))) =
     (if \<not> input_accepted e cfg argv fs then {}
      else
        (if need_preview cfg \<and> dirname (preview_path e cfg (argv ! 1)) \<noteq> []
         then {''preview''} else {}) \<union>
        (if need_workflow cfg \<and> dirname (workflow_path e cfg (argv ! 1)) \<noteq> [] \<and>
            (need_preview cfg \<longrightarrow> dirname (preview_path e cfg (argv ! 1)) \<noteq> [] \<and>
               exit_status e (preview_cmd e cfg (fst (init_ffmpeg e cfg (start fs))) (argv ! 1))
                 (files (snd (init_ffmpeg e cfg (start fs)))) = Some 0)
         then {''workflow''} else {}))"
  using preview_not_workflow [of e cfg "argv ! 1" cfg]
  by (auto simp: transcoded_tiers_def tier_path_preview tier_path_workflow main_artifacts)

lemma need_iff_enabled_spec:
  "need_preview cfg \<longleftrightarrow> (True, ''preview'') \<in> set (output_specs cfg)"
  "need_workflow cfg \<longleftrightarrow> (True, ''workflow'') \<in> set (output_specs cfg)"
  by (auto simp: need_preview_def need_workflow_def output_specs_def)

lemma needed_tiers_specs:
  "needed_tiers cfg =
     {t. (t = ''preview'' \<or> t = ''workflow'') \<and> (True, t) \<in> set (output_specs cfg)}"
  by (auto simp: needed_tiers_def need_iff_enabled_spec)


lemma demo_accepted: "input_accepted demo_env default_config demo_argv demo_files"
  by code_simp

lemma demo_succeeds: "fst (main demo_env default_config demo_argv (start demo_files)) = Exit0"
  by code_simp

subsection \<open>The need analysis and what is transcoded\<close>

text \<open>
  C1. The tiers a run transcodes are always tiers that the quality source of an enabled
  output names. In a run that gets to the encoding stage with a temp directory, the
  preview tier is transcoded exactly when the preview output is enabled with the source
  \<^verbatim>\<open>preview\<close> or the workflow output is enabled with the source \<^verbatim>\<open>preview\<close>. If moreover no
  encoder invocation of the run fails, and so in every successful run, the same holds for
  the workflow tier, and the set of transcoded tiers is exactly the set of tiers that the
  enabled outputs name, which is the set the need analysis computes. With both outputs
  disabled no tier is needed and nothing is transcoded.
\<close>

theorem transcoded_tiers_exact:
  "transcoded_tiers e cfg (argv ! 1) (trace (snd (main e cfg argv (start fs)))) \<subseteq>
     {t. (t = ''preview'' \<or> t = ''workflow'') \<and> (True, t) \<in> set (output_specs cfg)} \<and>
   (input_accepted e cfg argv fs \<and> AW_TEMP e \<noteq> [] \<longrightarrow>
      (''preview'' \<in> transcoded_tiers e cfg (argv ! 1) (trace (snd (main e cfg argv (start fs))))
         \<longleftrightarrow> (ENABLE_P5_PREVIEW cfg \<and> P5_PREVIEW_SOURCE cfg = ''preview'') \<or>
                (ENABLE_WORKFLOW_STORE cfg \<and> WORKFLOW_STORE_SOURCE cfg = ''preview''))) \<and>
   (input_accepted e cfg argv fs \<and> AW_TEMP e \<noteq> [] \<and>
    list_all (\<lambda>(cmd, rc). rc = Some 0) (transcodes (trace (snd (main e cfg argv (start fs))))) \<longrightarrow>
      (''workflow'' \<in> transcoded_tiers e cfg (argv ! 1) (trace (snd (main e cfg argv (start fs))))
         \<longleftrightarrow> (ENABLE_P5_PREVIEW cfg \<and> P5_PREVIEW_SOURCE cfg = ''workflow'') \<or>
                (ENABLE_WORKFLOW_STORE cfg \<and> WORKFLOW_STORE_SOURCE cfg = ''workflow'')) \<and>
      transcoded_tiers e cfg (argv ! 1) (trace (snd (main e cfg argv (start fs)))) =
        {t. (t = ''preview'' \<or> t = ''workflow'') \<and> (True, t) \<in> set (output_specs cfg)}) \<and>
   (fst (main e cfg argv (start fs)) = Exit0 \<longrightarrow>
      transcoded_tiers e cfg (argv ! 1) (trace (snd (main e cfg argv (start fs)))) =
        {t. (t = ''preview'' \<or> t = ''workflow'') \<and> (True, t) \<in> set (output_specs cfg)} \<and>
      artifacts (trace (snd (main e cfg argv (start fs)))) =
        (if need_preview cfg then [preview_path e cfg (argv ! 1)] else []) @
        (if need_workflow cfg then [workflow_path e cfg (argv ! 1)] else [])) \<and>
   needed_tiers cfg =
     {t. (t = ''preview'' \<or> t = ''workflow'') \<and> (True, t) \<in> set (output_specs cfg)} \<and>
   (\<not> ENABLE_P5_PREVIEW cfg \<and> \<not> ENABLE_WORKFLOW_STORE cfg \<longrightarrow>
      needed_tiers cfg = {} \<and> transcodes (trace (snd (main e cfg argv (start fs)))) = [])"
proof -
  define tr where "tr = trace (snd (main e cfg argv (start fs)))"
  define S where
    "S = {t. (t = ''preview'' \<or> t = ''workflow'') \<and> (True, t) \<in> set (output_specs cfg)}"
  have S: "S = (if need_preview cfg then {''preview''} else {}) \<union>
               (if need_workflow cfg then {''workflow''} else {})"
    unfolding S_def needed_tiers_specs [symmetric] by (simp add: needed_tiers_def)
  have np: "need_preview cfg \<longleftrightarrow>
      (ENABLE_P5_PREVIEW cfg \<and> P5_PREVIEW_SOURCE cfg = ''preview'') \<or>
      (ENABLE_WORKFLOW_STORE cfg \<and> WORKFLOW_STORE_SOURCE cfg = ''preview'')"
    by (simp add: need_preview_def)
  have nw: "need_workflow cfg \<longleftrightarrow>
      (ENABLE_P5_PREVIEW cfg \<and> P5_PREVIEW_SOURCE cfg = ''workflow'') \<or>
      (ENABLE_WORKFLOW_STORE cfg \<and> WORKFLOW_STORE_SOURCE cfg = ''workflow'')"
    by (simp add: need_workflow_def)
  have 1: "transcoded_tiers e cfg (argv ! 1) tr \<subseteq> S"
    unfolding tr_def S by (auto simp: transcoded_tiers_main simp del: One_nat_def split: if_splits)
  have 2: "''preview'' \<in> transcoded_tiers e cfg (argv ! 1) tr \<longleftrightarrow> need_preview cfg"
    if "input_accepted e cfg argv fs \<and> AW_TEMP e \<noteq> []"
    using that temp_dir_nonempty [of e cfg "argv ! 1"]
    unfolding tr_def by (auto simp: transcoded_tiers_main simp del: One_nat_def split: if_splits)
  have 3: "(''workflow'' \<in> transcoded_tiers e cfg (argv ! 1) tr \<longleftrightarrow> need_workflow cfg) \<and>
           transcoded_tiers e cfg (argv ! 1) tr = S"
    if h: "input_accepted e cfg argv fs \<and> AW_TEMP e \<noteq> [] \<and>
           list_all (\<lambda>(cmd, rc). rc = Some 0) (transcodes tr)"
  proof -
    from h have d: "dirname (preview_path e cfg (argv ! 1)) \<noteq> []"
      "dirname (workflow_path e cfg (argv ! 1)) \<noteq> []"
      using temp_dir_nonempty [of e cfg "argv ! 1"] by simp_all
    from h d have ok: "need_preview cfg \<longrightarrow>
        exit_status e (preview_cmd e cfg (fst (init_ffmpeg e cfg (start fs))) (argv ! 1))
          (files (snd (init_ffmpeg e cfg (start fs)))) = Some 0"
      unfolding tr_def by (auto simp: main_transcodes Let_def simp del: One_nat_def split: if_splits)
    from h d ok show ?thesis
      unfolding tr_def S by (auto simp: transcoded_tiers_main simp del: One_nat_def split: if_splits)
  qed
  have 4: "transcoded_tiers e cfg (argv ! 1) tr = S \<and>
      artifacts tr =
        (if need_preview cfg then [preview_path e cfg (argv ! 1)] else []) @
        (if need_workflow cfg then [workflow_path e cfg (argv ! 1)] else [])"
    if ok: "fst (main e cfg argv (start fs)) = Exit0"
    using successful_run_encodes [OF ok]
    unfolding tr_def S by (auto simp: transcoded_tiers_main main_artifacts simp del: One_nat_def split: if_splits)
  have 5: "needed_tiers cfg = S" unfolding S_def by (rule needed_tiers_specs)
  have 6: "needed_tiers cfg = {} \<and> transcodes tr = []"
    if "\<not> ENABLE_P5_PREVIEW cfg \<and> \<not> ENABLE_WORKFLOW_STORE cfg"
    using that unfolding tr_def
    by (auto simp: needed_tiers_def main_transcodes Let_def need_preview_def need_workflow_def
          simp del: One_nat_def)
  from 1 2 3 4 5 6 show ?thesis
    unfolding tr_def S_def np nw by blast
qed

theorem transcoded_tiers_exact_witness:
  "input_accepted demo_env default_config demo_argv demo_files \<and> AW_TEMP demo_env \<noteq> [] \<and>
   list_all (\<lambda>(cmd, rc). rc = Some 0)
     (transcodes (trace (snd (main demo_env default_config demo_argv (start demo_files))))) \<and>
   fst (main demo_env default_config demo_argv (start demo_files)) = Exit0 \<and>
   transcoded_tiers demo_env default_config (demo_argv ! 1)
     (trace (snd (main demo_env default_config demo_argv (start demo_files)))) =
     {''preview'', ''workflow''} \<and>
   fst (main demo_env (default_config\<lparr>P5_PREVIEW_SOURCE := ''workflow''\<rparr>)
          demo_argv (start demo_files)) = Exit0 \<and>
   transcoded_tiers demo_env (default_config\<lparr>P5_PREVIEW_SOURCE := ''workflow''\<rparr>) (demo_argv ! 1)
     (trace (snd (main demo_env (default_config\<lparr>P5_PREVIEW_SOURCE := ''workflow''\<rparr>)
                    demo_argv (start demo_files)))) = {''workflow''} \<and>
   \<not> ENABLE_P5_PREVIEW
       (default_config\<lparr>ENABLE_P5_PREVIEW := False, ENABLE_WORKFLOW_STORE := False\<rparr>) \<and>
   \<not> ENABLE_WORKFLOW_STORE
       (default_config\<lparr>ENABLE_P5_PREVIEW := False, ENABLE_WORKFLOW_STORE := False\<rparr>) \<and>
   transcodes (trace (snd (main demo_env
       (default_config\<lparr>ENABLE_P5_PREVIEW := False, ENABLE_WORKFLOW_STORE := False\<rparr>)
       demo_argv (start demo_files)))) = []"
proof -
  define x where "x = default_config\<lparr>P5_PREVIEW_SOURCE := ''workflow''\<rparr>"
  define off where
    "off = default_config\<lparr>ENABLE_P5_PREVIEW := False, ENABLE_WORKFLOW_STORE := False\<rparr>"
  have t: "AW_TEMP demo_env \<noteq> []" by (simp add: demo_env_def)
  have all_ok: "list_all (\<lambda>(cmd, rc). rc = Some 0)
     (transcodes (trace (snd (main demo_env default_config demo_argv (start demo_files)))))"
    by code_simp
  have x_ok: "fst (main demo_env x demo_argv (start demo_files)) = Exit0"
    unfolding x_def by code_simp
  have h_off: "\<not> ENABLE_P5_PREVIEW off \<and> \<not> ENABLE_WORKFLOW_STORE off"
    by (simp add: off_def)
  have s: "{t. (t = ''preview'' \<or> t = ''workflow'') \<and> (True, t) \<in> set (output_specs default_config)} =
      {''preview'', ''workflow''}"
    by (auto simp: output_specs_def default_config_def)
  have sx: "{t. (t = ''preview'' \<or> t = ''workflow'') \<and> (True, t) \<in> set (output_specs x)} =
      {''workflow''}"
    by (auto simp: output_specs_def default_config_def x_def)
  from transcoded_tiers_exact [of demo_env default_config demo_argv demo_files]
    demo_accepted t all_ok
  have 1: "transcoded_tiers demo_env default_config (demo_argv ! 1)
     (trace (snd (main demo_env default_config demo_argv (start demo_files)))) =
     {''preview'', ''workflow''}"
    unfolding s by blast
  from transcoded_tiers_exact [of demo_env x demo_argv demo_files] x_ok
  have 2: "transcoded_tiers demo_env x (demo_argv ! 1)
     (trace (snd (main demo_env x demo_argv (start demo_files)))) = {''workflow''}"
    unfolding sx by blast
  from transcoded_tiers_exact [of demo_env off demo_argv demo_files] h_off
  have 3: "transcodes (trace (snd (main demo_env off demo_argv (start demo_files)))) = []"
    by blast
  from demo_accepted t all_ok demo_succeeds 1 x_ok 2 h_off 3 show ?thesis
    unfolding x_def off_def by blast
qed

subsection \<open>The single-encode optimization\<close>







subsection \<open>Return and cleanup\<close>




subsection \<open>The source of the workflow copy\<close>



end
